theory Spec2Isabelle
  imports Complex_Main
begin

section \<open>Strings\<close>

text \<open>
  A JavaScript string is a sequence of UTF-16 code units and \<open>length\<close> counts them.
  The model uses \<^typ>\<open>string\<close>: a list of 8-bit characters, one per code unit, which
  covers the code units below 256. The line terminators U+2028 and U+2029 and the
  white space above U+00FF are not values of the character type.
\<close>

definition chr_code :: "char \<Rightarrow> nat" where
  "chr_code c = of_char c"

text \<open>\<open>String.prototype.trim\<close>: white space and line terminators are removed at both ends.\<close>

definition is_space :: "char \<Rightarrow> bool" where
  "is_space c = (chr_code c \<in> {9, 10, 11, 12, 13, 32, 160})"

definition trim :: "string \<Rightarrow> string" where
  "trim s = rev (dropWhile is_space (rev (dropWhile is_space s)))"

text \<open>Template literals print a count in decimal.\<close>

definition digit_char :: "nat \<Rightarrow> char" where
  "digit_char d = char_of (48 + d)"

fun string_of_nat :: "nat \<Rightarrow> string" where
  "string_of_nat n =
     (if n < 10 then [digit_char n] else string_of_nat (n div 10) @ [digit_char (n mod 10)])"

declare string_of_nat.simps [simp del]

text \<open>\<open>Array.prototype.join\<close>.\<close>

fun join :: "string \<Rightarrow> string list \<Rightarrow> string" where
  "join sep [] = []"
| "join sep [x] = x"
| "join sep (x # y # ys) = x @ sep @ join sep (y # ys)"

text \<open>
  A value of type \<open>string | null\<close> in a condition: \<open>null\<close> and the empty string are
  falsy.
\<close>

fun truthy :: "string option \<Rightarrow> bool" where
  "truthy None = False"
| "truthy (Some s) = (s \<noteq> [])"

section \<open>The regular expression of \<open>getYouTubeID\<close>\<close>

text \<open>
  The pattern is
  \<^verbatim>\<open>/^.*(youtu.be\/|v\/|u\/\w\/|embed\/|watch\?v=|&v=)([^#&?]*).*/\<close>.
  It is kept as a syntax tree and run by a backtracking matcher that returns the successful
  end states in the order in which the engine of the language tries them, so that the
  first one is the match that \<open>String.prototype.match\<close> reports. The pattern stars
  single-character classes only, and so does the tree.
\<close>

datatype cset =
    Lit char            \<comment> \<open>the character itself\<close>
  | AnyChar             \<comment> \<open>\<open>.\<close>: every character but a line terminator\<close>
  | WordChar            \<comment> \<open>\<open>\w\<close>\<close>
  | NoneOf string       \<comment> \<open>\<open>[^...]\<close>\<close>

datatype regex =
    Eps
  | Bol                 \<comment> \<open>\<open>^\<close> without the multiline flag\<close>
  | Atom cset
  | Star cset           \<comment> \<open>greedy \<open>*\<close> on one character class\<close>
  | Seq regex regex
  | Alt regex regex
  | Group nat regex     \<comment> \<open>capturing group with its number\<close>

definition line_terminator :: "char \<Rightarrow> bool" where
  "line_terminator c = (chr_code c = 10 \<or> chr_code c = 13)"

definition word_char :: "char \<Rightarrow> bool" where
  "word_char c =
     (let n = chr_code c
      in (97 \<le> n \<and> n \<le> 122) \<or> (65 \<le> n \<and> n \<le> 90) \<or> (48 \<le> n \<and> n \<le> 57) \<or> n = 95)"

fun cmatch :: "cset \<Rightarrow> char \<Rightarrow> bool" where
  "cmatch (Lit a) c = (c = a)"
| "cmatch AnyChar c = (\<not> line_terminator c)"
| "cmatch WordChar c = word_char c"
| "cmatch (NoneOf cs) c = (c \<notin> set cs)"

text \<open>
  A matcher state is the end index reached in the input and the captures made so far
  (the latest capture of a group first).
\<close>

type_synonym mstate = "nat \<times> (nat \<times> string) list"

fun rmatch :: "regex \<Rightarrow> string \<Rightarrow> mstate \<Rightarrow> mstate list" where
  "rmatch Eps s st = [st]"
| "rmatch Bol s (i, caps) = (if i = 0 then [(i, caps)] else [])"
| "rmatch (Atom a) s (i, caps) =
     (if i < length s \<and> cmatch a (s ! i) then [(Suc i, caps)] else [])"
| "rmatch (Star a) s (i, caps) =
     map (\<lambda>k. (i + k, caps)) (rev [0..<Suc (length (takeWhile (cmatch a) (drop i s)))])"
| "rmatch (Seq r1 r2) s st = concat (map (rmatch r2 s) (rmatch r1 s st))"
| "rmatch (Alt r1 r2) s st = rmatch r1 s st @ rmatch r2 s st"
| "rmatch (Group g r) s (i, caps) =
     map (\<lambda>(j, caps'). (j, (g, take (j - i) (drop i s)) # caps')) (rmatch r s (i, caps))"

text \<open>
  \<open>RegExp.prototype.exec\<close> without the global flag: the start indices are tried from
  0 on, and the first state of the first start index that matches gives the captures.
\<close>

definition regexp_exec :: "regex \<Rightarrow> string \<Rightarrow> (nat \<times> string) list option" where
  "regexp_exec r s =
     (case concat (map (\<lambda>i. rmatch r s (i, [])) [0..<Suc (length s)]) of
        [] \<Rightarrow> None
      | (j, caps) # _ \<Rightarrow> Some caps)"

fun atoms :: "cset list \<Rightarrow> regex" where
  "atoms [] = Eps"
| "atoms (a # as) = Seq (Atom a) (atoms as)"

definition lits :: "string \<Rightarrow> cset list" where
  "lits s = map Lit s"

definition markers :: regex where
  "markers =
     Alt (atoms (lits ''youtu'' @ [AnyChar] @ lits ''be/''))
    (Alt (atoms (lits ''v/''))
    (Alt (atoms (lits ''u/'' @ [WordChar] @ lits ''/''))
    (Alt (atoms (lits ''embed/''))
    (Alt (atoms (lits ''watch?v=''))
         (atoms (lits ''&v=''))))))"

definition regExp :: regex where
  "regExp =
     Seq Bol (Seq (Star AnyChar)
       (Seq (Group 1 markers) (Seq (Group 2 (Star (NoneOf ''#&?''))) (Star AnyChar))))"

text \<open>
  \<^verbatim>\<open>return (match && match[2].length === 11) ? match[2] : null;\<close>
  Group 2 takes part in every match of the pattern, so \<open>match[2]\<close> is a string whenever
  \<open>match\<close> is not \<open>null\<close>.
\<close>

definition getYouTubeID :: "string \<Rightarrow> string option" where
  "getYouTubeID url =
     (case regexp_exec regExp url of
        None \<Rightarrow> None
      | Some caps \<Rightarrow>
          (case map_of caps 2 of
             None \<Rightarrow> None
           | Some m2 \<Rightarrow> if length m2 = 11 then Some m2 else None))"

section \<open>Numbers\<close>

text \<open>
  The three counters hold small non-negative integers, which a JavaScript number
  represents exactly (every integer below \<open>2^53\<close>); they are natural numbers here. The
  one place where the arithmetic is not exact is the percentage
  \<^verbatim>\<open>Math.round((correctAnswers / totalQuestions) * 100)\<close>: the quotient and the product
  are each rounded to the nearest double (53 significant bits, ties to even). A
  non-negative finite double is a pair \<open>(m, e)\<close> standing for \<open>m * 2^e\<close>. The
  exponent is not bounded here: quotients of counts are far from the range where a double
  overflows or loses bits to a subnormal.
\<close>

fun bits :: "nat \<Rightarrow> nat" where
  "bits n = (if n = 0 then 0 else Suc (bits (n div 2)))"

declare bits.simps [simp del]

text \<open>The integer nearest to \<open>a / b\<close>, the even one of two that are equally near.\<close>

definition rne :: "nat \<Rightarrow> nat \<Rightarrow> nat" where
  "rne a b =
     (let q = a div b; r = a mod b
      in if 2 * r < b then q else if b < 2 * r then q + 1 else if even q then q else q + 1)"

text \<open>\<open>\<lfloor>log\<^sub>2 (n / d)\<rfloor>\<close> for positive \<open>n\<close> and \<open>d\<close>.\<close>

definition flog2 :: "nat \<Rightarrow> nat \<Rightarrow> int" where
  "flog2 n d =
     (let t = int (bits n) - int (bits d)
      in if d * 2 ^ nat t \<le> n * 2 ^ nat (- t) then t else t - 1)"

text \<open>The double nearest to \<open>n / d\<close>, for positive \<open>n\<close> and \<open>d\<close>.\<close>

definition round53 :: "nat \<Rightarrow> nat \<Rightarrow> nat \<times> int" where
  "round53 n d =
     (let e = flog2 n d - 52
      in (rne (n * 2 ^ nat (- e)) (d * 2 ^ nat e), e))"

datatype number = Finite nat int | Infinity | NaN

text \<open>\<open>c / t\<close> on two counters.\<close>

definition num_div :: "nat \<Rightarrow> nat \<Rightarrow> number" where
  "num_div c t =
     (if t = 0 then (if c = 0 then NaN else Infinity)
      else if c = 0 then Finite 0 0
      else case round53 c t of (m, e) \<Rightarrow> Finite m e)"

text \<open>\<open>x * 100\<close>: the exact product, rounded to 53 bits when it has more.\<close>

fun times100 :: "number \<Rightarrow> number" where
  "times100 (Finite m e) =
     (let p = 100 * m; k = bits p - 53
      in if 53 < bits p then Finite (rne p (2 ^ k)) (e + int k) else Finite p e)"
| "times100 Infinity = Infinity"
| "times100 NaN = NaN"

text \<open>
  \<open>Math.round\<close>: the nearest integer, the greater one of two that are equally near.
  The result of \<open>Math.round\<close> is a whole number, \<open>Infinity\<close> or \<open>NaN\<close>.
\<close>

datatype rounded = Whole nat | RInfinity | RNaN

fun math_round :: "number \<Rightarrow> rounded" where
  "math_round (Finite m e) =
     (if 0 \<le> e then Whole (m * 2 ^ nat e)
      else Whole ((2 * m + 2 ^ nat (- e)) div 2 ^ Suc (nat (- e))))"
| "math_round Infinity = RInfinity"
| "math_round NaN = RNaN"

definition percentage_of :: "nat \<Rightarrow> nat \<Rightarrow> rounded" where
  "percentage_of c t = math_round (times100 (num_div c t))"

fun show_rounded :: "rounded \<Rightarrow> string" where
  "show_rounded (Whole n) = string_of_nat n"
| "show_rounded RInfinity = ''Infinity''"
| "show_rounded RNaN = ''NaN''"

text \<open>\<open>percentage >= k\<close>; a comparison with \<open>NaN\<close> is false.\<close>

fun at_least :: "rounded \<Rightarrow> nat \<Rightarrow> bool" where
  "at_least (Whole n) k = (k \<le> n)"
| "at_least RInfinity k = True"
| "at_least RNaN k = False"

section \<open>Data model\<close>

record QuizQuestion =
  question :: string
  options :: "string list"
  answer :: string

text \<open>
  The parsed response is declared \<open>QuizQuestion[]\<close>, and nothing checks it at run time.
  An entry of the parsed array is a question as declared, or an object whose \<open>options\<close>
  is not an array: \<open>NoOptions text message\<close> is such an object, \<open>text\<close> is what its
  \<open>question\<close> gives in the prompt, and \<open>message\<close> is the message of the \<open>TypeError\<close>
  that \<open>q.options.forEach\<close> throws on it. The history holds the entries as they were
  parsed.
\<close>

datatype entry = Question QuizQuestion | NoOptions string string

fun entry_question :: "entry \<Rightarrow> string" where
  "entry_question (Question q) = question q"
| "entry_question (NoOptions text message) = text"

text \<open>
  A thrown value, as the \<open>catch\<close> of \<open>generateQuiz\<close> reads it: an \<open>Error\<close> with its
  message, or any other value.
\<close>

datatype thrown = ErrorObject string | OtherValue

fun errMessage :: "thrown \<Rightarrow> string" where
  "errMessage (ErrorObject message) = message"
| "errMessage OtherValue = ''An unknown error occurred.''"

text \<open>
  One rendered option: the \<open>label\<close> with its radio input and its span. \<open>opt_value\<close> is
  the value of the input (and the text of the span); the three flags are the classes
  \<open>selected\<close>, \<open>correct\<close> and \<open>incorrect\<close> of the label.
\<close>

record option_el =
  opt_value :: string
  opt_selected :: bool
  opt_correct :: bool
  opt_incorrect :: bool
  opt_disabled :: bool
  opt_cursor :: string

text \<open>
  One rendered question. \<open>qi_answered\<close> is the class \<open>answered\<close> of its options
  container; \<open>qi_answer\<close> is \<open>q.answer\<close>, which the click handlers of its options hold
  in their closure.
\<close>

record question_item =
  qi_title :: string
  qi_name :: string
  qi_options :: "option_el list"
  qi_answered :: bool
  qi_answer :: string

record iframe =
  src :: string
  title :: string
  frameBorder :: string
  allow :: string
  allowFullscreen :: bool

text \<open>
  The application state: the six module variables, then the part of the document that
  the code reads or writes. The console, the input focus and the scroll position are left
  out.
\<close>

record app =
  totalQuestions :: nat
  answeredQuestions :: nat
  correctAnswers :: nat
  currentTranscript :: "string option"
  currentVideoId :: "string option"
  previousQuestions :: "entry list"
  urlInput :: string
  transcriptInput :: string
  formError_hidden :: bool
  formError_text :: string
  outputContainer_hidden :: bool
  videoContainer :: "iframe list"
  loader_display :: string
  loader_first :: bool
  generateBtn_disabled :: bool
  generateBtn_text :: string
  retakeBtn_disabled :: bool
  retakeBtn_text :: string
  restartBtn_disabled :: bool
  errorMessage_hidden :: bool
  errorMessage_text :: string
  questionsList :: "question_item list"
  resultsContainer_display :: string
  resultsTitle :: string
  resultsSummary :: string

section \<open>Output helpers\<close>

definition setLoading :: "bool \<Rightarrow> app \<Rightarrow> app" where
  "setLoading isLoading s =
     (if isLoading
      then s\<lparr>loader_display := ''block'', loader_first := True,
             generateBtn_disabled := True, generateBtn_text := ''Generating...''\<rparr>
      else s\<lparr>loader_display := ''none'',
             generateBtn_disabled := False, generateBtn_text := ''Generate Quiz''\<rparr>)"

definition clearOutput :: "app \<Rightarrow> app" where
  "clearOutput s =
     s\<lparr>errorMessage_hidden := True, questionsList := [], resultsContainer_display := ''none''\<rparr>"

definition displayError :: "string \<Rightarrow> app \<Rightarrow> app" where
  "displayError message s =
     (clearOutput s)\<lparr>videoContainer := [], errorMessage_text := message,
                     errorMessage_hidden := False\<rparr>"

section \<open>Scoring\<close>

text \<open>The titles end in an emoji, which is outside the character type and left out.\<close>

definition result_title :: "rounded \<Rightarrow> string" where
  "result_title percentage =
     (if percentage = Whole 100 then ''Perfect Score!''
      else if at_least percentage 75 then ''Great Job!''
      else if at_least percentage 50 then ''Not Bad!''
      else ''Better Luck Next Time!'')"

definition displayResults :: "app \<Rightarrow> app" where
  "displayResults s =
     (let percentage = percentage_of (correctAnswers s) (totalQuestions s)
      in s\<lparr>resultsTitle := result_title percentage,
            resultsSummary :=
              ''You answered '' @ string_of_nat (correctAnswers s) @ '' out of '' @
              string_of_nat (totalQuestions s) @ '' questions correctly ('' @
              show_rounded percentage @ ''%).'',
            resultsContainer_display := ''block''\<rparr>)"

section \<open>Answering a question\<close>

text \<open>\<open>Array.prototype.find\<close>, by position: the first element that satisfies the test.\<close>

fun find_index :: "('a \<Rightarrow> bool) \<Rightarrow> 'a list \<Rightarrow> nat option" where
  "find_index P [] = None"
| "find_index P (x # xs) = (if P x then Some 0 else map_option Suc (find_index P xs))"

text \<open>
  \<open>checkAnswer\<close> gets the labels of the question, the label that was clicked (here its
  position \<open>sel\<close> among them), its text and the answer of the question. It changes the
  labels and the counter \<open>correctAnswers\<close>, and returns both here.
\<close>

definition checkAnswer ::
  "option_el list \<Rightarrow> nat \<Rightarrow> string \<Rightarrow> string \<Rightarrow> nat \<Rightarrow> option_el list \<times> nat" where
  "checkAnswer allOptionElements sel selectedAnswer correctAnswer correct =
     (let els1 = map (\<lambda>opt. opt\<lparr>opt_selected := False\<rparr>) allOptionElements;
          els2 = els1[sel := (els1 ! sel)\<lparr>opt_selected := True\<rparr>];
          (els3, correct') =
            (if selectedAnswer = correctAnswer
             then (els2[sel := (els2 ! sel)\<lparr>opt_correct := True\<rparr>], correct + 1)
             else
               (let els = els2[sel := (els2 ! sel)\<lparr>opt_incorrect := True\<rparr>]
                in case find_index (\<lambda>opt. opt_value opt = correctAnswer) els of
                     None \<Rightarrow> (els, correct)
                   | Some j \<Rightarrow> (els[j := (els ! j)\<lparr>opt_correct := True\<rparr>], correct)))
      in (map (\<lambda>opt. opt\<lparr>opt_disabled := True, opt_cursor := ''default''\<rparr>) els3, correct'))"

text \<open>
  The click handler of option \<open>oi\<close> of question \<open>qn\<close>. Only a label that is in the
  document can be clicked: for any other pair of positions nothing happens.
\<close>

definition optionClick :: "nat \<Rightarrow> nat \<Rightarrow> app \<Rightarrow> app" where
  "optionClick qn oi s =
     (if qn < length (questionsList s) \<and> oi < length (qi_options (questionsList s ! qn))
      then
        (let item = questionsList s ! qn
         in if qi_answered item then s
            else
              (let (els, correct') =
                     checkAnswer (qi_options item) oi (opt_value (qi_options item ! oi))
                       (qi_answer item) (correctAnswers s);
                   s1 = s\<lparr>correctAnswers := correct',
                          questionsList :=
                            (questionsList s)[qn := item\<lparr>qi_options := els, qi_answered := True\<rparr>]\<rparr>;
                   s2 = s1\<lparr>answeredQuestions := answeredQuestions s1 + 1\<rparr>
               in if answeredQuestions s2 = totalQuestions s2 then displayResults s2 else s2))
      else s)"

section \<open>Rendering\<close>

definition render_option :: "string \<Rightarrow> option_el" where
  "render_option optionText =
     \<lparr>opt_value = optionText, opt_selected = False, opt_correct = False,
      opt_incorrect = False, opt_disabled = False, opt_cursor = []\<rparr>"

definition render_question :: "nat \<Rightarrow> QuizQuestion \<Rightarrow> question_item" where
  "render_question index q =
     \<lparr>qi_title = string_of_nat (index + 1) @ ''. '' @ question q,
      qi_name = ''question-'' @ string_of_nat index,
      qi_options = map render_option (options q),
      qi_answered = False,
      qi_answer = answer q\<rparr>"

text \<open>
  The loop of \<open>renderQuestions\<close> from the entry at \<open>index\<close> on: each question is appended
  to the list once its item is built; on an entry without an array of options
  \<open>q.options.forEach\<close> throws before the item is appended, and the loop ends there. The
  result is the state reached and the value thrown, if any.
\<close>

fun render_each :: "nat \<Rightarrow> entry list \<Rightarrow> app \<Rightarrow> app \<times> thrown option" where
  "render_each index [] s = (s, None)"
| "render_each index (Question q # rest) s =
     render_each (Suc index) rest
       (s\<lparr>questionsList := questionsList s @ [render_question index q]\<rparr>)"
| "render_each index (NoOptions text message # rest) s = (s, Some (ErrorObject message))"

definition renderQuestions :: "entry list \<Rightarrow> app \<Rightarrow> app \<times> thrown option" where
  "renderQuestions questions s =
     (if questions = []
      then (displayError
              ''No questions were generated. The transcript might be too short or unclear.'' s,
            None)
      else render_each 0 questions
             (s\<lparr>totalQuestions := length questions, answeredQuestions := 0,
                correctAnswers := 0\<rparr>))"

section \<open>Generating a quiz\<close>

definition nl :: string where
  "nl = [CHR 0x0A]"

text \<open>The three fixed parts of the prompt of \<open>generateQuiz\<close>.\<close>

definition prompt_intro :: string where
  "prompt_intro = ''You are an expert at creating quizzes. Based on the following video transcript, please generate 5 insightful multiple-choice questions to test comprehension of the key topics. For each question, provide 4 distinct options, with one being the correct answer. The answer must be one of the options. Ensure the questions cover different parts of the transcript.''"

definition prompt_exclusion :: string where
  "prompt_exclusion = nl @ nl @ ''IMPORTANT: Do NOT repeat any questions from this list. Generate a completely new and different set of questions. Here are the questions that have already been asked:'' @ nl @ '' - ''"

definition prompt_transcript :: string where
  "prompt_transcript = nl @ nl @ ''Here is the transcript: '' @ nl @ nl"

definition buildPrompt :: "string \<Rightarrow> entry list \<Rightarrow> string" where
  "buildPrompt transcript existingQuestions =
     prompt_intro @
     (if length existingQuestions > 0
      then prompt_exclusion @ join (nl @ '' - '') (map entry_question existingQuestions)
      else []) @
     prompt_transcript @ transcript"

text \<open>
  What the awaited call to the model gives: the promise rejects with a thrown value, or
  \<open>JSON.parse\<close> throws on the text of the response (a \<open>SyntaxError\<close> with its message), or
  the text parses to a list of entries. \<open>Parses\<close> is the response that the schema asks
  for, a list of questions each with its array of options. A response that parses to
  any other value (not an array, or an array with an entry that is neither a question
  nor an object without an array of options) is not a value of this type.
\<close>

datatype outcome = Rejects thrown | ParseFails string | ParsesTo "entry list"

definition Parses :: "QuizQuestion list \<Rightarrow> outcome" where
  "Parses quizData = ParsesTo (map Question quizData)"

definition embed_video :: "string \<Rightarrow> iframe" where
  "embed_video videoId =
     \<lparr>src = ''https://www.youtube.com/embed/'' @ videoId,
      title = ''YouTube video player'',
      frameBorder = ''0'',
      allow = ''accelerometer; autoplay; clipboard-write; encrypted-media; gyroscope; picture-in-picture; web-share'',
      allowFullscreen = True\<rparr>"

text \<open>
  \<open>generateQuiz\<close> up to its \<open>await\<close>: the state it leaves and the prompt it sends.
\<close>

definition generateQuiz_request ::
  "string \<Rightarrow> string option \<Rightarrow> entry list \<Rightarrow> app \<Rightarrow> app \<times> string" where
  "generateQuiz_request transcript videoId existingQuestions s =
     (let s1 = (if truthy videoId then s\<lparr>videoContainer := [embed_video (the videoId)]\<rparr> else s);
          s2 = s1\<lparr>outputContainer_hidden := False\<rparr>
      in (clearOutput s2, buildPrompt transcript existingQuestions))"

text \<open>
  \<open>generateQuiz\<close> from the point where the awaited call settles. The parsed entries are
  pushed onto the history before \<open>renderQuestions\<close> runs; what \<open>renderQuestions\<close> throws
  is caught like the other errors, in the state that \<open>renderQuestions\<close> had reached.
\<close>

definition generateQuiz_settle :: "outcome \<Rightarrow> app \<Rightarrow> app" where
  "generateQuiz_settle out s =
     (case out of
        ParsesTo quizData \<Rightarrow>
          (case renderQuestions quizData
                  (s\<lparr>previousQuestions := previousQuestions s @ quizData\<rparr>) of
             (s', None) \<Rightarrow> s'
           | (s', Some e) \<Rightarrow> displayError (''Failed to generate quiz. '' @ errMessage e) s')
      | ParseFails message \<Rightarrow> displayError (''Failed to generate quiz. '' @ message) s
      | Rejects e \<Rightarrow> displayError (''Failed to generate quiz. '' @ errMessage e) s)"

section \<open>The three flows\<close>

text \<open>
  A handler that reaches the call to the model stops there and goes on when the call
  settles. Each is two functions: the part up to the \<open>await\<close>, which returns what the
  rest needs (nothing when the handler returned before the call), and the rest.
\<close>

definition submit_request :: "app \<Rightarrow> app \<times> (string \<times> string \<times> string) option" where
  "submit_request s =
     (let s1 = s\<lparr>formError_hidden := True\<rparr>;
          url = trim (urlInput s1);
          transcript = trim (transcriptInput s1);
          videoId = getYouTubeID url
      in if \<not> truthy videoId then
           (s1\<lparr>formError_text := ''Please enter a valid YouTube video URL.'',
               formError_hidden := False\<rparr>, None)
         else if transcript = [] \<or> length transcript < 100 then
           (s1\<lparr>formError_text :=
                 ''Please paste the transcript. It must be at least 100 characters long.'',
               formError_hidden := False\<rparr>, None)
         else
           (let s2 = setLoading True s1;
                s3 = clearOutput s2;
                s4 = s3\<lparr>videoContainer := []\<rparr>;
                s5 = s4\<lparr>previousQuestions := []\<rparr>;
                (s6, prompt) = generateQuiz_request transcript videoId [] s5
            in (s6, Some (prompt, transcript, the videoId))))"

definition submit_settle :: "string \<Rightarrow> string \<Rightarrow> outcome \<Rightarrow> app \<Rightarrow> app" where
  "submit_settle transcript videoId out s =
     (let s1 = generateQuiz_settle out s;
          s2 = s1\<lparr>currentTranscript := Some transcript\<rparr>;
          s3 = s2\<lparr>currentVideoId := Some videoId\<rparr>
      in setLoading False s3)"

definition restart :: "app \<Rightarrow> app" where
  "restart s =
     (let s1 = s\<lparr>outputContainer_hidden := True, videoContainer := []\<rparr>;
          s2 = clearOutput s1
      in s2\<lparr>urlInput := [], transcriptInput := [], currentTranscript := None,
            currentVideoId := None, previousQuestions := [], formError_hidden := True\<rparr>)"

definition retake_request :: "app \<Rightarrow> app \<times> string option" where
  "retake_request s =
     (if truthy (currentTranscript s) \<and> truthy (currentVideoId s)
      then
        (let s1 = s\<lparr>retakeBtn_disabled := True, restartBtn_disabled := True,
                    retakeBtn_text := ''Generating...'', loader_display := ''block''\<rparr>;
             (s2, prompt) =
               generateQuiz_request (the (currentTranscript s1)) None (previousQuestions s1) s1
         in (s2, Some prompt))
      else (s, None))"

definition retake_settle :: "outcome \<Rightarrow> app \<Rightarrow> app" where
  "retake_settle out s =
     (generateQuiz_settle out s)\<lparr>loader_display := ''none'', retakeBtn_disabled := False,
        restartBtn_disabled := False, retakeBtn_text := ''Generate New Questions''\<rparr>"

text \<open>
  A flow that runs alone, from the event to the end of its handler, with the outcome of
  its call to the model.
\<close>

definition submit :: "outcome \<Rightarrow> app \<Rightarrow> app" where
  "submit out s =
     (case submit_request s of
        (s', None) \<Rightarrow> s'
      | (s', Some (prompt, transcript, videoId)) \<Rightarrow> submit_settle transcript videoId out s')"

definition retake :: "outcome \<Rightarrow> app \<Rightarrow> app" where
  "retake out s =
     (case retake_request s of
        (s', None) \<Rightarrow> s'
      | (s', Some prompt) \<Rightarrow> retake_settle out s')"

section \<open>The page as it loads, and sample data\<close>

text \<open>
  Modelled from the spec: the document (index.html) is not among the sources. The module
  variables start as the source initialises them; the document starts idle, as the
  restart flow leaves it: no output, empty fields, every control enabled.
\<close>

definition initial_app :: app where
  "initial_app =
     \<lparr>totalQuestions = 0, answeredQuestions = 0, correctAnswers = 0,
      currentTranscript = None, currentVideoId = None, previousQuestions = [],
      urlInput = [], transcriptInput = [],
      formError_hidden = True, formError_text = [],
      outputContainer_hidden = True, videoContainer = [],
      loader_display = ''none'', loader_first = False,
      generateBtn_disabled = False, generateBtn_text = ''Generate Quiz'',
      retakeBtn_disabled = False, retakeBtn_text = ''Generate New Questions'',
      restartBtn_disabled = False,
      errorMessage_hidden = True, errorMessage_text = [],
      questionsList = [],
      resultsContainer_display = ''none'', resultsTitle = [], resultsSummary = []\<rparr>"

definition demo_question :: QuizQuestion where
  "demo_question =
     \<lparr>question = ''Which planet is the largest?'',
      options = [''Mars'', ''Jupiter'', ''Venus'', ''Earth''],
      answer = ''Jupiter''\<rparr>"

text \<open>A question that breaks the invariant of the data model: its answer is no option.\<close>

definition stray_question :: QuizQuestion where
  "stray_question =
     \<lparr>question = ''Which planet is the smallest?'',
      options = [''Mars'', ''Jupiter'', ''Venus'', ''Earth''],
      answer = ''Mercury''\<rparr>"

definition demo_url :: string where
  "demo_url = ''https://youtu.be/dQw4w9WgXcQ''"

definition demo_transcript :: string where
  "demo_transcript = replicate 100 (CHR ''a'')"

text \<open>The page after the user has filled in the form.\<close>

definition filled_form :: app where
  "filled_form = initial_app\<lparr>urlInput := demo_url, transcriptInput := demo_transcript\<rparr>"

text \<open>
  The outcomes on which the \<open>catch\<close> branch of \<open>generateQuiz\<close> runs: the call rejects,
  \<open>JSON.parse\<close> throws, or \<open>renderQuestions\<close> throws, which it does when an entry of
  the response has no array of options. \<open>pushed\<close> is what \<open>generateQuiz\<close> has pushed
  onto the history by then: the entries of the response when it parsed, nothing
  otherwise.
\<close>

fun has_options :: "entry \<Rightarrow> bool" where
  "has_options (Question q) = True"
| "has_options (NoOptions text message) = False"

fun is_failure :: "outcome \<Rightarrow> bool" where
  "is_failure (Rejects e) = True"
| "is_failure (ParseFails message) = True"
| "is_failure (ParsesTo quizData) = (\<not> list_all has_options quizData)"

fun pushed :: "outcome \<Rightarrow> entry list" where
  "pushed (Rejects e) = []"
| "pushed (ParseFails message) = []"
| "pushed (ParsesTo quizData) = quizData"

text \<open>An entry that cannot be rendered: an object with a question and no options.\<close>

definition optionless :: entry where
  "optionless = NoOptions ''Which planet has no options?'' ''q.options is undefined''"

text \<open>Five questions, as the prompt asks for.\<close>

definition demo_quiz :: "QuizQuestion list" where
  "demo_quiz =
     [demo_question,
      \<lparr>question = ''Which planet is nearest to the sun?'',
       options = [''Mercury'', ''Jupiter'', ''Venus'', ''Earth''], answer = ''Mercury''\<rparr>,
      \<lparr>question = ''Which planet has rings?'',
       options = [''Mars'', ''Saturn'', ''Venus'', ''Earth''], answer = ''Saturn''\<rparr>,
      \<lparr>question = ''Which planet is called the red planet?'',
       options = [''Mars'', ''Jupiter'', ''Venus'', ''Earth''], answer = ''Mars''\<rparr>,
      \<lparr>question = ''Which planet do we live on?'',
       options = [''Mars'', ''Jupiter'', ''Venus'', ''Earth''], answer = ''Earth''\<rparr>]"

section \<open>Where a marker occurs in a string\<close>

text \<open>
  The notions in which the result of \<open>getYouTubeID\<close> is stated below, independent of the
  matcher. A marker is one of the six alternatives of group 1; \<open>marker_len s\<close> is the
  length of the marker that \<open>s\<close> begins with, if it begins with one. The first line of a
  string ends before its first line terminator.
\<close>

definition marker_forms :: "cset list list" where
  "marker_forms =
     [lits ''youtu'' @ [AnyChar] @ lits ''be/'',
      lits ''v/'',
      lits ''u/'' @ [WordChar] @ lits ''/'',
      lits ''embed/'',
      lits ''watch?v='',
      lits ''&v='']"

definition starts_with :: "cset list \<Rightarrow> string \<Rightarrow> bool" where
  "starts_with cs s = list_all2 cmatch cs (take (length cs) s)"

definition marker_len :: "string \<Rightarrow> nat option" where
  "marker_len s = map_option length (find (\<lambda>cs. starts_with cs s) marker_forms)"

definition line_end :: "string \<Rightarrow> nat" where
  "line_end s = length (takeWhile (\<lambda>c. \<not> line_terminator c) s)"

definition id_char :: "char \<Rightarrow> bool" where
  "id_char c = (c \<notin> set ''#&?'')"

text \<open>The part of the pattern that follows group 1.\<close>

definition id_tail :: regex where
  "id_tail = Seq (Group 2 (Star (NoneOf ''#&?''))) (Star AnyChar)"

text \<open>
  The recognized forms in the words of claim C2: \<open>youtu.be/\<close>, \<open>/v/\<close>, \<open>/u/<digit>/\<close>,
  \<open>/embed/\<close>, \<open>watch?v=\<close> and \<open>&v=\<close>, each followed by a token of exactly 11
  characters that ends at \<open>#\<close>, \<open>&\<close>, \<open>?\<close> or the end of the string.
  \<open>claimed_ids url\<close> lists these tokens, one for every place of \<open>url\<close> where a form
  stands.
\<close>

definition is_digit :: "char \<Rightarrow> bool" where
  "is_digit c = (48 \<le> chr_code c \<and> chr_code c \<le> 57)"

definition claimed_form_len :: "string \<Rightarrow> nat option" where
  "claimed_form_len s =
     (if take 9 s = ''youtu.be/'' then Some 9
      else if take 3 s = ''/v/'' then Some 3
      else if take 3 s = ''/u/'' \<and> 5 \<le> length s \<and> is_digit (s ! 3) \<and> s ! 4 = CHR ''/''
        then Some 5
      else if take 7 s = ''/embed/'' then Some 7
      else if take 8 s = ''watch?v='' then Some 8
      else if take 3 s = ''&v='' then Some 3
      else None)"

definition claimed_id_at :: "string \<Rightarrow> nat \<Rightarrow> string option" where
  "claimed_id_at url k =
     (case claimed_form_len (drop k url) of
        None \<Rightarrow> None
      | Some n \<Rightarrow>
          (let t = takeWhile id_char (drop (k + n) url)
           in if length t = 11 then Some t else None))"

definition claimed_ids :: "string \<Rightarrow> string list" where
  "claimed_ids url = List.map_filter (claimed_id_at url) [0..<length url]"

section \<open>The percentage in exact arithmetic\<close>

text \<open>
  The percentage in the words of claim C5: \<open>round(100 * correct / total)\<close>, computed on
  the exact quotient, a half rounding up as \<open>Math.round\<close> does. The quotient
  \<open>100 * correct / total\<close> is exactly halfway between two integers when
  \<open>100 * correct / total + 1 / 2\<close> is an integer, that is when \<open>2 * total\<close> divides
  \<open>200 * correct + total\<close>.
\<close>

definition exact_percentage :: "nat \<Rightarrow> nat \<Rightarrow> nat" where
  "exact_percentage c t = (200 * c + t) div (2 * t)"

definition halfway :: "nat \<Rightarrow> nat \<Rightarrow> bool" where
  "halfway c t = ((200 * c + t) mod (2 * t) = 0)"

section \<open>Events\<close>

text \<open>
  The page is driven by events, one handler at a time. A call to the model that is
  outstanding is kept with what its handler holds for the time after the \<open>await\<close>: the
  submit handler its locals \<open>transcript\<close> and \<open>videoId\<close>, the retake handler nothing.
\<close>

datatype flow = SubmitFlow string string | RetakeFlow

fun settle_flow :: "flow \<Rightarrow> outcome \<Rightarrow> app \<Rightarrow> app" where
  "settle_flow (SubmitFlow transcript videoId) out s = submit_settle transcript videoId out s"
| "settle_flow RetakeFlow out s = retake_settle out s"

datatype event =
    TypeUrl string            \<comment> \<open>the user edits the URL field\<close>
  | TypeTranscript string     \<comment> \<open>the user edits the transcript field\<close>
  | SubmitForm
  | ClickRetake
  | ClickRestart
  | ClickOption nat nat       \<comment> \<open>question and option, by position\<close>
  | Settle nat outcome        \<comment> \<open>the outstanding call at this position settles\<close>

text \<open>
  One step: the state and the outstanding calls after the event, or nothing when the
  event cannot happen. A disabled button takes no click and submits no form; an option
  that is not in the document cannot be clicked; any outstanding call may settle, with any
  outcome. The handler that continues after a call settles runs to its end before the next
  event.
\<close>

fun fire :: "event \<Rightarrow> app \<times> flow list \<Rightarrow> (app \<times> flow list) option" where
  "fire (TypeUrl u) (s, calls) = Some (s\<lparr>urlInput := u\<rparr>, calls)"
| "fire (TypeTranscript t) (s, calls) = Some (s\<lparr>transcriptInput := t\<rparr>, calls)"
| "fire SubmitForm (s, calls) =
     (if generateBtn_disabled s then None
      else case submit_request s of
             (s', None) \<Rightarrow> Some (s', calls)
           | (s', Some (prompt, transcript, videoId)) \<Rightarrow>
               Some (s', calls @ [SubmitFlow transcript videoId]))"
| "fire ClickRetake (s, calls) =
     (if retakeBtn_disabled s then None
      else case retake_request s of
             (s', None) \<Rightarrow> Some (s', calls)
           | (s', Some prompt) \<Rightarrow> Some (s', calls @ [RetakeFlow]))"
| "fire ClickRestart (s, calls) =
     (if restartBtn_disabled s then None else Some (restart s, calls))"
| "fire (ClickOption qn oi) (s, calls) =
     (if qn < length (questionsList s) \<and> oi < length (qi_options (questionsList s ! qn))
      then Some (optionClick qn oi s, calls) else None)"
| "fire (Settle i out) (s, calls) =
     (if i < length calls
      then Some (settle_flow (calls ! i) out s, take i calls @ drop (Suc i) calls)
      else None)"

fun run :: "event list \<Rightarrow> app \<times> flow list \<Rightarrow> (app \<times> flow list) option" where
  "run [] c = Some c"
| "run (e # es) c = (case fire e c of None \<Rightarrow> None | Some c' \<Rightarrow> run es c')"

definition reachable :: "app \<times> flow list \<Rightarrow> bool" where
  "reachable c = (\<exists>es. run es (initial_app, []) = Some c)"

text \<open>
  A session: the user fills in the form and submits it, the model answers with one
  question, the user answers it, the results appear, and the user asks for new questions.
  While that call is outstanding the user submits the form again.
\<close>

definition retake_started :: "event list" where
  "retake_started =
     [TypeUrl demo_url, TypeTranscript demo_transcript, SubmitForm,
      Settle 0 (Parses [demo_question]), ClickOption 0 1, ClickRetake]"

definition second_submit :: "event list" where
  "second_submit = retake_started @ [SubmitForm]"

text \<open>
  Both calls then settle, each with one question, and the user answers the two questions
  on the page.
\<close>

definition both_answered :: "event list" where
  "both_answered =
     second_submit @
     [Settle 0 (Parses [demo_question]), Settle 0 (Parses [stray_question]),
      ClickOption 0 0, ClickOption 1 0]"

text \<open>
  The states along this session: when the user asks for new questions, while the call of
  the retake is outstanding, while both calls are outstanding, after both have settled,
  and after the two answers.
\<close>

definition quiz_done :: app where
  "quiz_done = optionClick 0 1 (submit (Parses [demo_question]) filled_form)"

definition retake_waiting :: app where
  "retake_waiting = fst (retake_request quiz_done)"

definition both_waiting :: app where
  "both_waiting = fst (submit_request retake_waiting)"

definition both_rendered :: app where
  "both_rendered =
     submit_settle demo_transcript ''dQw4w9WgXcQ'' (Parses [stray_question])
       (retake_settle (Parses [demo_question]) both_waiting)"

definition both_clicked :: app where
  "both_clicked = optionClick 1 0 (optionClick 0 0 both_rendered)"

text \<open>
  The page as claim C3 describes it: an event that would start a call while another call
  is outstanding does not happen. \<open>unanswered\<close> counts the questions on the page
  that are not locked.
\<close>

fun fire_alone :: "event \<Rightarrow> app \<times> flow list \<Rightarrow> (app \<times> flow list) option" where
  "fire_alone e (s, calls) =
     (if calls \<noteq> [] \<and> (e = SubmitForm \<or> e = ClickRetake) then None else fire e (s, calls))"

fun run_alone :: "event list \<Rightarrow> app \<times> flow list \<Rightarrow> (app \<times> flow list) option" where
  "run_alone [] c = Some c"
| "run_alone (e # es) c = (case fire_alone e c of None \<Rightarrow> None | Some c' \<Rightarrow> run_alone es c')"

definition unanswered :: "app \<Rightarrow> nat" where
  "unanswered s = length (filter (\<lambda>item. \<not> qi_answered item) (questionsList s))"

definition counted :: "app \<times> flow list \<Rightarrow> bool" where
  "counted c =
     (case c of (s, calls) \<Rightarrow>
        length calls \<le> 1 \<and>
        answeredQuestions s + unanswered s \<le> totalQuestions s \<and>
        (calls = [] \<or> questionsList s = []))"

section \<open>Answering: auxiliary facts\<close>

lemma find_index_Some:
  "find_index P xs = Some j \<Longrightarrow> j < length xs \<and> P (xs ! j) \<and> (\<forall>i<j. \<not> P (xs ! i))"
proof (induction xs arbitrary: j)
  case Nil
  then show ?case by simp
next
  case (Cons x xs)
  show ?case
  proof (cases "P x")
    case True
    with Cons.prems show ?thesis by simp
  next
    case False
    with Cons.prems obtain k where k: "find_index P xs = Some k" "j = Suc k"
      by auto
    from Cons.IH [OF k(1)] False k(2) show ?thesis
      by (auto simp: nth_Cons split: nat.splits)
  qed
qed

lemma find_index_None: "find_index P xs = None \<longleftrightarrow> (\<forall>x\<in>set xs. \<not> P x)"
  by (induction xs) auto

lemma optionClick_answered:
  "qn < length (questionsList s) \<Longrightarrow> qi_answered (questionsList s ! qn) \<Longrightarrow> optionClick qn oi s = s"
  by (simp add: optionClick_def Let_def)

lemma displayResults_frame:
  "questionsList (displayResults s) = questionsList s"
  "answeredQuestions (displayResults s) = answeredQuestions s"
  "correctAnswers (displayResults s) = correctAnswers s"
  "totalQuestions (displayResults s) = totalQuestions s"
  by (simp_all add: displayResults_def Let_def)

lemma optionClick_first:
  assumes "qn < length (questionsList s)" "oi < length (qi_options (questionsList s ! qn))"
    "\<not> qi_answered (questionsList s ! qn)"
  shows "questionsList (optionClick qn oi s) =
     (questionsList s)[qn := (questionsList s ! qn)\<lparr>qi_options :=
         fst (checkAnswer (qi_options (questionsList s ! qn)) oi
               (opt_value (qi_options (questionsList s ! qn) ! oi))
               (qi_answer (questionsList s ! qn)) (correctAnswers s)),
         qi_answered := True\<rparr>]"
   and "correctAnswers (optionClick qn oi s) =
         snd (checkAnswer (qi_options (questionsList s ! qn)) oi
               (opt_value (qi_options (questionsList s ! qn) ! oi))
               (qi_answer (questionsList s ! qn)) (correctAnswers s))"
   and "answeredQuestions (optionClick qn oi s) = answeredQuestions s + 1"
   and "totalQuestions (optionClick qn oi s) = totalQuestions s"
  using assms
  by (simp_all add: optionClick_def Let_def displayResults_frame split: prod.splits)


lemma find_index_cong:
  "length xs = length ys \<Longrightarrow> (\<forall>i<length xs. P (xs ! i) = Q (ys ! i)) \<Longrightarrow>
   find_index P xs = find_index Q ys"
proof (induction xs arbitrary: ys)
  case Nil
  then show ?case by simp
next
  case (Cons x xs)
  then obtain y ys' where ys: "ys = y # ys'" by (cases ys) auto
  from Cons.prems ys have hd: "P x = Q y" by auto
  from Cons.prems ys have "\<forall>i<length xs. P (xs ! i) = Q (ys' ! i)" by auto
  with Cons.IH [of ys'] Cons.prems ys have "find_index P xs = find_index Q ys'" by simp
  with hd ys show ?case by simp
qed

lemma checkAnswer_length:
  "length (fst (checkAnswer els sel a c n)) = length els"
  by (simp add: checkAnswer_def Let_def split: prod.splits option.splits if_splits)

lemma checkAnswer_right:
  assumes "sel < length els" "j < length els"
  shows "fst (checkAnswer els sel c c n) ! j =
           (els ! j)\<lparr>opt_selected := (j = sel),
                     opt_correct := (j = sel \<or> opt_correct (els ! j)),
                     opt_disabled := True, opt_cursor := ''default''\<rparr>"
    and "snd (checkAnswer els sel c c n) = n + 1"
  using assms by (simp_all add: checkAnswer_def Let_def nth_list_update)

lemma checkAnswer_wrong:
  assumes "sel < length els" "j < length els" "a \<noteq> c"
  shows "fst (checkAnswer els sel a c n) ! j =
           (els ! j)\<lparr>opt_selected := (j = sel),
                     opt_correct := (find_index (\<lambda>opt. opt_value opt = c) els = Some j
                                       \<or> opt_correct (els ! j)),
                     opt_incorrect := (j = sel \<or> opt_incorrect (els ! j)),
                     opt_disabled := True, opt_cursor := ''default''\<rparr>"
    and "snd (checkAnswer els sel a c n) = n"
proof -
  let ?els1 = "map (\<lambda>opt. opt\<lparr>opt_selected := False\<rparr>) els"
  let ?els2 = "?els1[sel := (?els1 ! sel)\<lparr>opt_selected := True\<rparr>]"
  let ?els = "?els2[sel := (?els2 ! sel)\<lparr>opt_incorrect := True\<rparr>]"
  have len: "length ?els = length els" by simp
  have "\<forall>i<length ?els. (opt_value (?els ! i) = c) = (opt_value (els ! i) = c)"
    using assms(1) by (simp add: nth_list_update)
  then have fi: "find_index (\<lambda>opt. opt_value opt = c) ?els = find_index (\<lambda>opt. opt_value opt = c) els"
    using find_index_cong [OF len, of "\<lambda>opt. opt_value opt = c" "\<lambda>opt. opt_value opt = c"] by blast
  show "fst (checkAnswer els sel a c n) ! j =
           (els ! j)\<lparr>opt_selected := (j = sel),
                     opt_correct := (find_index (\<lambda>opt. opt_value opt = c) els = Some j
                                       \<or> opt_correct (els ! j)),
                     opt_incorrect := (j = sel \<or> opt_incorrect (els ! j)),
                     opt_disabled := True, opt_cursor := ''default''\<rparr>"
  proof (cases "find_index (\<lambda>opt. opt_value opt = c) els")
    case None
    with assms fi show ?thesis
      by (simp add: checkAnswer_def Let_def nth_list_update)
  next
    case (Some k)
    from find_index_Some [OF Some] have "k < length els" by simp
    with Some assms fi show ?thesis
      by (auto simp add: checkAnswer_def Let_def nth_list_update)
  qed
  show "snd (checkAnswer els sel a c n) = n"
    using assms by (simp add: checkAnswer_def Let_def split: option.splits)
qed

lemma optionClick_errorMessage:
  "errorMessage_hidden (optionClick qn oi s) = errorMessage_hidden s \<and>
   errorMessage_text (optionClick qn oi s) = errorMessage_text s"
  by (simp add: optionClick_def Let_def displayResults_def split: prod.splits)

lemma rendered_options:
  "qi_options (render_question idx q) = map render_option (options q)"
  "qi_answer (render_question idx q) = answer q"
  "\<not> qi_answered (render_question idx q)"
  by (simp_all add: render_question_def)

lemma rendered_option_fields:
  "opt_value (render_option x) = x"
  "\<not> opt_selected (render_option x)"
  "\<not> opt_correct (render_option x)"
  "\<not> opt_incorrect (render_option x)"
  by (simp_all add: render_option_def)

lemma find_index_rendered:
  "find_index (\<lambda>opt. opt_value opt = c) (map render_option xs) = find_index (\<lambda>x. x = c) xs"
  by (induction xs) (simp_all add: rendered_option_fields)

lemma checkAnswer_fresh_wrong:
  assumes "oi < length xs" "j < length xs" "xs ! oi \<noteq> c"
  shows "opt_value (fst (checkAnswer (map render_option xs) oi (xs ! oi) c n) ! j) = xs ! j"
    and "opt_selected (fst (checkAnswer (map render_option xs) oi (xs ! oi) c n) ! j) = (j = oi)"
    and "opt_incorrect (fst (checkAnswer (map render_option xs) oi (xs ! oi) c n) ! j) = (j = oi)"
    and "opt_correct (fst (checkAnswer (map render_option xs) oi (xs ! oi) c n) ! j) =
           (find_index (\<lambda>x. x = c) xs = Some j)"
proof -
  have a: "oi < length (map render_option xs)" "j < length (map render_option xs)"
    using assms by simp_all
  note w = checkAnswer_wrong(1) [OF a assms(3), of n]
  show "opt_value (fst (checkAnswer (map render_option xs) oi (xs ! oi) c n) ! j) = xs ! j"
    using assms(2) by (simp add: w rendered_option_fields)
  show "opt_selected (fst (checkAnswer (map render_option xs) oi (xs ! oi) c n) ! j) = (j = oi)"
    by (simp add: w)
  show "opt_incorrect (fst (checkAnswer (map render_option xs) oi (xs ! oi) c n) ! j) = (j = oi)"
    using assms(2) by (simp add: w rendered_option_fields)
  show "opt_correct (fst (checkAnswer (map render_option xs) oi (xs ! oi) c n) ! j) =
           (find_index (\<lambda>x. x = c) xs = Some j)"
    using assms(2) by (simp add: w rendered_option_fields find_index_rendered)
qed

lemma checkAnswer_fresh_right:
  assumes "oi < length xs" "j < length xs"
  shows "opt_value (fst (checkAnswer (map render_option xs) oi c c n) ! j) = xs ! j"
    and "opt_selected (fst (checkAnswer (map render_option xs) oi c c n) ! j) = (j = oi)"
    and "opt_incorrect (fst (checkAnswer (map render_option xs) oi c c n) ! j) = False"
    and "opt_correct (fst (checkAnswer (map render_option xs) oi c c n) ! j) = (j = oi)"
proof -
  have a: "oi < length (map render_option xs)" "j < length (map render_option xs)"
    using assms by simp_all
  note w = checkAnswer_right(1) [OF a, of c n]
  show "opt_value (fst (checkAnswer (map render_option xs) oi c c n) ! j) = xs ! j"
    using assms(2) by (simp add: w rendered_option_fields)
  show "opt_selected (fst (checkAnswer (map render_option xs) oi c c n) ! j) = (j = oi)"
    by (simp add: w)
  show "opt_incorrect (fst (checkAnswer (map render_option xs) oi c c n) ! j) = False"
    using assms(2) by (simp add: w rendered_option_fields)
  show "opt_correct (fst (checkAnswer (map render_option xs) oi c c n) ! j) = (j = oi)"
    using assms(2) by (simp add: w rendered_option_fields)
qed

lemma optionClick_rendered:
  assumes "qn < length (questionsList s)"
    and "questionsList s ! qn = render_question idx q"
    and "oi < length (options q)"
  shows "qi_options (questionsList (optionClick qn oi s) ! qn) =
           fst (checkAnswer (map render_option (options q)) oi (options q ! oi) (answer q)
                  (correctAnswers s))"
    and "correctAnswers (optionClick qn oi s) =
           snd (checkAnswer (map render_option (options q)) oi (options q ! oi) (answer q)
                  (correctAnswers s))"
    and "answeredQuestions (optionClick qn oi s) = answeredQuestions s + 1"
    and "qi_answered (questionsList (optionClick qn oi s) ! qn)"
proof -
  have pre: "oi < length (qi_options (questionsList s ! qn))" "\<not> qi_answered (questionsList s ! qn)"
    using assms(2,3) by (simp_all add: rendered_options)
  have val: "opt_value (qi_options (questionsList s ! qn) ! oi) = options q ! oi"
    using assms(2,3) by (simp add: rendered_options rendered_option_fields)
  note first = optionClick_first [OF assms(1) pre]
  show "qi_options (questionsList (optionClick qn oi s) ! qn) =
           fst (checkAnswer (map render_option (options q)) oi (options q ! oi) (answer q)
                  (correctAnswers s))"
    using assms(1,3) by (simp add: first(1) assms(2) rendered_options rendered_option_fields)
  show "correctAnswers (optionClick qn oi s) =
           snd (checkAnswer (map render_option (options q)) oi (options q ! oi) (answer q)
                  (correctAnswers s))"
    using assms(3) by (simp add: first(2) assms(2) rendered_options rendered_option_fields)
  show "answeredQuestions (optionClick qn oi s) = answeredQuestions s + 1"
    by (rule first(3))
  show "qi_answered (questionsList (optionClick qn oi s) ! qn)"
    using assms(1) by (simp add: first(1))
qed

lemma rendered_demo:
  "questionsList (fst (renderQuestions [Question q] initial_app)) = [render_question 0 q]"
  by (simp add: renderQuestions_def initial_app_def)

lemma demo_unique: "\<exists>!j. j < length (options demo_question) \<and> options demo_question ! j = answer demo_question"
proof (rule ex1I [of _ 1])
  show "1 < length (options demo_question) \<and> options demo_question ! 1 = answer demo_question"
    by (simp add: demo_question_def)
next
  fix j assume "j < length (options demo_question) \<and> options demo_question ! j = answer demo_question"
  then have "j < 4" and "[''Mars'', ''Jupiter'', ''Venus'', ''Earth''] ! j = ''Jupiter''"
    by (simp_all add: demo_question_def)
  moreover from \<open>j < 4\<close> have "j = 0 \<or> j = 1 \<or> j = 2 \<or> j = 3" by arith
  ultimately show "j = 1" by (elim disjE) simp_all
qed

section \<open>The flows: auxiliary facts\<close>

lemma getYouTubeID_length: "getYouTubeID url = Some v \<Longrightarrow> length v = 11"
  by (auto simp: getYouTubeID_def split: option.splits if_splits)

lemma displayError_fields:
  "videoContainer (displayError m s) = []"
  "questionsList (displayError m s) = []"
  "resultsContainer_display (displayError m s) = ''none''"
  "\<not> errorMessage_hidden (displayError m s)"
  "errorMessage_text (displayError m s) = m"
  "currentTranscript (displayError m s) = currentTranscript s"
  "currentVideoId (displayError m s) = currentVideoId s"
  "previousQuestions (displayError m s) = previousQuestions s"
  by (simp_all add: displayError_def clearOutput_def)

lemma generateQuiz_request_fields:
  "snd (generateQuiz_request tr vid ex s) = buildPrompt tr ex"
  "currentTranscript (fst (generateQuiz_request tr vid ex s)) = currentTranscript s"
  "currentVideoId (fst (generateQuiz_request tr vid ex s)) = currentVideoId s"
  "previousQuestions (fst (generateQuiz_request tr vid ex s)) = previousQuestions s"
  "videoContainer (fst (generateQuiz_request tr vid ex s)) =
     (if truthy vid then [embed_video (the vid)] else videoContainer s)"
  by (simp_all add: generateQuiz_request_def clearOutput_def Let_def)

lemma render_each_frame:
  "currentTranscript (fst (render_each i es s)) = currentTranscript s"
  "currentVideoId (fst (render_each i es s)) = currentVideoId s"
  "previousQuestions (fst (render_each i es s)) = previousQuestions s"
  "totalQuestions (fst (render_each i es s)) = totalQuestions s"
  "answeredQuestions (fst (render_each i es s)) = answeredQuestions s"
  "correctAnswers (fst (render_each i es s)) = correctAnswers s"
  by (induction i es s rule: render_each.induct; simp)+

lemma render_each_conforming:
  "render_each i (map Question qs) s =
     (s\<lparr>questionsList :=
          questionsList s @ map (\<lambda>(index, q). render_question index q) (enumerate i qs)\<rparr>,
      None)"
  by (induction qs arbitrary: i s) simp_all

lemma render_each_throws:
  "snd (render_each i es s) = None \<longleftrightarrow> list_all has_options es"
  by (induction i es s rule: render_each.induct) simp_all

lemma renderQuestions_frame:
  "currentTranscript (fst (renderQuestions es s)) = currentTranscript s"
  "currentVideoId (fst (renderQuestions es s)) = currentVideoId s"
  "previousQuestions (fst (renderQuestions es s)) = previousQuestions s"
  by (simp_all add: renderQuestions_def displayError_fields render_each_frame)

lemma renderQuestions_throws:
  "snd (renderQuestions es s) = None \<longleftrightarrow> list_all has_options es"
  by (simp add: renderQuestions_def render_each_throws)

lemma renderQuestions_conforming:
  "renderQuestions (map Question qs) s =
     (if qs = []
      then displayError
             ''No questions were generated. The transcript might be too short or unclear.'' s
      else s\<lparr>totalQuestions := length qs, answeredQuestions := 0, correctAnswers := 0,
             questionsList :=
               questionsList s @ map (\<lambda>(index, q). render_question index q) (enumerate 0 qs)\<rparr>,
      None)"
  by (simp add: renderQuestions_def render_each_conforming)

lemma generateQuiz_settle_ParsesTo:
  "generateQuiz_settle (ParsesTo es) s =
     (case snd (renderQuestions es (s\<lparr>previousQuestions := previousQuestions s @ es\<rparr>)) of
        None \<Rightarrow> fst (renderQuestions es (s\<lparr>previousQuestions := previousQuestions s @ es\<rparr>))
      | Some e \<Rightarrow>
          displayError (''Failed to generate quiz. '' @ errMessage e)
            (fst (renderQuestions es (s\<lparr>previousQuestions := previousQuestions s @ es\<rparr>))))"
  by (simp add: generateQuiz_settle_def split: prod.splits option.splits)

lemma generateQuiz_settle_Parses:
  "generateQuiz_settle (Parses qs) s =
     (if qs = []
      then displayError
             ''No questions were generated. The transcript might be too short or unclear.''
             (s\<lparr>previousQuestions := previousQuestions s @ map Question qs\<rparr>)
      else s\<lparr>previousQuestions := previousQuestions s @ map Question qs,
             totalQuestions := length qs, answeredQuestions := 0, correctAnswers := 0,
             questionsList :=
               questionsList s @ map (\<lambda>(index, q). render_question index q) (enumerate 0 qs)\<rparr>)"
  by (simp add: generateQuiz_settle_def Parses_def renderQuestions_conforming)

lemma is_failure_cases:
  assumes "is_failure out"
  shows "\<exists>m s'. generateQuiz_settle out s = displayError m s'"
proof (cases out)
  case (Rejects e)
  then show ?thesis by (auto simp: generateQuiz_settle_def)
next
  case (ParseFails m)
  then show ?thesis by (auto simp: generateQuiz_settle_def)
next
  case (ParsesTo es)
  with assms have "snd (renderQuestions es (s\<lparr>previousQuestions := previousQuestions s @ es\<rparr>))
      \<noteq> None"
    by (simp add: renderQuestions_throws)
  then obtain e where
    "snd (renderQuestions es (s\<lparr>previousQuestions := previousQuestions s @ es\<rparr>)) = Some e"
    by blast
  then have "generateQuiz_settle out s =
      displayError (''Failed to generate quiz. '' @ errMessage e)
        (fst (renderQuestions es (s\<lparr>previousQuestions := previousQuestions s @ es\<rparr>)))"
    by (simp only: ParsesTo generateQuiz_settle_ParsesTo option.case)
  then show ?thesis by blast
qed

lemma is_failure_fields:
  assumes "is_failure out"
  shows "videoContainer (generateQuiz_settle out s) = []"
    and "questionsList (generateQuiz_settle out s) = []"
    and "resultsContainer_display (generateQuiz_settle out s) = ''none''"
    and "\<not> errorMessage_hidden (generateQuiz_settle out s)"
proof -
  from is_failure_cases [OF assms, of s] obtain m s'
    where m: "generateQuiz_settle out s = displayError m s'" by blast
  show "videoContainer (generateQuiz_settle out s) = []"
    and "questionsList (generateQuiz_settle out s) = []"
    and "resultsContainer_display (generateQuiz_settle out s) = ''none''"
    and "\<not> errorMessage_hidden (generateQuiz_settle out s)"
    by (simp_all add: m displayError_fields)
qed

lemma generateQuiz_settle_ParsesTo_fields:
  "currentTranscript (generateQuiz_settle (ParsesTo es) s) = currentTranscript s"
  "currentVideoId (generateQuiz_settle (ParsesTo es) s) = currentVideoId s"
  "previousQuestions (generateQuiz_settle (ParsesTo es) s) = previousQuestions s @ es"
  by (simp_all add: generateQuiz_settle_ParsesTo renderQuestions_frame displayError_fields
      split: option.splits)

lemma generateQuiz_settle_session:
  "currentTranscript (generateQuiz_settle out s) = currentTranscript s"
  "currentVideoId (generateQuiz_settle out s) = currentVideoId s"
proof -
  show "currentTranscript (generateQuiz_settle out s) = currentTranscript s"
  proof (cases out)
    case (ParsesTo es)
    then show ?thesis by (simp add: generateQuiz_settle_ParsesTo_fields)
  qed (simp_all add: generateQuiz_settle_def displayError_fields)
  show "currentVideoId (generateQuiz_settle out s) = currentVideoId s"
  proof (cases out)
    case (ParsesTo es)
    then show ?thesis by (simp add: generateQuiz_settle_ParsesTo_fields)
  qed (simp_all add: generateQuiz_settle_def displayError_fields)
qed

lemma generateQuiz_settle_history:
  "previousQuestions (generateQuiz_settle out s) = previousQuestions s @ pushed out"
proof (cases out)
  case (ParsesTo es)
  then show ?thesis by (simp add: generateQuiz_settle_ParsesTo_fields)
qed (simp_all add: generateQuiz_settle_def displayError_fields)

lemma generateQuiz_settle_quiz:
  "qs \<noteq> [] \<Longrightarrow> videoContainer (generateQuiz_settle (Parses qs) s) = videoContainer s"
  "previousQuestions (generateQuiz_settle (Parses qs) s) = previousQuestions s @ map Question qs"
  by (simp_all add: generateQuiz_settle_Parses displayError_fields)

lemma retake_guarded:
  assumes "truthy (currentTranscript s)" "truthy (currentVideoId s)"
  shows "retake out s =
           retake_settle out (fst (generateQuiz_request (the (currentTranscript s)) None
              (previousQuestions s)
              (s\<lparr>retakeBtn_disabled := True, restartBtn_disabled := True,
                 retakeBtn_text := ''Generating...'', loader_display := ''block''\<rparr>)))"
    and "snd (retake_request s) = Some (buildPrompt (the (currentTranscript s)) (previousQuestions s))"
    and "fst (retake_request s) = fst (generateQuiz_request (the (currentTranscript s)) None
              (previousQuestions s)
              (s\<lparr>retakeBtn_disabled := True, restartBtn_disabled := True,
                 retakeBtn_text := ''Generating...'', loader_display := ''block''\<rparr>))"
  using assms
  by (simp_all add: retake_def retake_request_def Let_def case_prod_beta generateQuiz_request_fields)

lemma retake_settle_fields:
  "currentTranscript (retake_settle out s) = currentTranscript (generateQuiz_settle out s)"
  "currentVideoId (retake_settle out s) = currentVideoId (generateQuiz_settle out s)"
  "previousQuestions (retake_settle out s) = previousQuestions (generateQuiz_settle out s)"
  "videoContainer (retake_settle out s) = videoContainer (generateQuiz_settle out s)"
  by (simp_all add: retake_settle_def)

lemma retake_unguarded:
  "\<not> (truthy (currentTranscript s) \<and> truthy (currentVideoId s)) \<Longrightarrow> retake out s = s"
  by (auto simp add: retake_def retake_request_def)

lemma retake_session:
  "currentTranscript (retake out s) = currentTranscript s"
  "currentVideoId (retake out s) = currentVideoId s"
proof -
  show "currentTranscript (retake out s) = currentTranscript s"
  proof (cases "truthy (currentTranscript s) \<and> truthy (currentVideoId s)")
    case True
    then show ?thesis
      by (simp add: retake_guarded(1) retake_settle_fields generateQuiz_settle_session
          generateQuiz_request_fields)
  next
    case False
    then show ?thesis by (simp add: retake_unguarded)
  qed
  show "currentVideoId (retake out s) = currentVideoId s"
  proof (cases "truthy (currentTranscript s) \<and> truthy (currentVideoId s)")
    case True
    then show ?thesis
      by (simp add: retake_guarded(1) retake_settle_fields generateQuiz_settle_session
          generateQuiz_request_fields)
  next
    case False
    then show ?thesis by (simp add: retake_unguarded)
  qed
qed

lemma retake_history:
  "previousQuestions (retake out s) =
     (if truthy (currentTranscript s) \<and> truthy (currentVideoId s)
      then previousQuestions s @ pushed out else previousQuestions s)"
proof (cases "truthy (currentTranscript s) \<and> truthy (currentVideoId s)")
  case True
  then show ?thesis
    by (simp add: retake_guarded(1) retake_settle_fields generateQuiz_settle_history
        generateQuiz_request_fields)
next
  case False
  then have "retake out s = s" by (rule retake_unguarded)
  with False show ?thesis by auto
qed

lemma join_contains:
  "x \<in> set xs \<Longrightarrow> \<exists>pre post. join sep xs = pre @ x @ post"
proof (induction sep xs rule: join.induct)
  case (1 sep)
  then show ?case by simp
next
  case (2 sep y)
  then have "join sep [y] = [] @ x @ []" by simp
  then show ?case by blast
next
  case (3 sep y z zs)
  show ?case
  proof (cases "x = y")
    case True
    then have "join sep (y # z # zs) = [] @ x @ (sep @ join sep (z # zs))" by simp
    then show ?thesis by blast
  next
    case False
    with 3 obtain pre post where "join sep (z # zs) = pre @ x @ post" by auto
    then have "join sep (y # z # zs) = (y @ sep @ pre) @ x @ post" by simp
    then show ?thesis by blast
  qed
qed

lemma buildPrompt_contains:
  assumes "q \<in> set existing"
  shows "\<exists>pre post. buildPrompt transcript existing = pre @ entry_question q @ post"
proof -
  from assms have "entry_question q \<in> set (map entry_question existing)" by simp
  from join_contains [OF this, of "nl @ '' - ''"] obtain pre post
    where j: "join (nl @ '' - '') (map entry_question existing) = pre @ entry_question q @ post"
    by blast
  from assms have ne: "length existing > 0" by (cases existing) auto
  have bp: "buildPrompt transcript existing =
      prompt_intro @ (prompt_exclusion @ join (nl @ '' - '') (map entry_question existing)) @
      prompt_transcript @ transcript"
    using ne by (simp add: buildPrompt_def)
  have "buildPrompt transcript existing =
      (prompt_intro @ prompt_exclusion @ pre) @ entry_question q @
      (post @ prompt_transcript @ transcript)"
    unfolding bp j by simp
  then show ?thesis by blast
qed

lemma demo_inputs:
  "trim demo_url = demo_url"
  "getYouTubeID demo_url = Some ''dQw4w9WgXcQ''"
  by code_simp+

lemma demo_transcript_trim: "trim demo_transcript = demo_transcript"
  by code_simp

lemma demo_transcript_length: "length demo_transcript = 100"
  by (simp add: demo_transcript_def)

lemma submit_valid:
  assumes "getYouTubeID (trim (urlInput s)) = Some vid"
    and "100 \<le> length (trim (transcriptInput s))"
  shows "snd (submit_request s) =
           Some (buildPrompt (trim (transcriptInput s)) [], trim (transcriptInput s), vid)"
    and "previousQuestions (fst (submit_request s)) = []"
    and "currentTranscript (fst (submit_request s)) = currentTranscript s"
    and "currentVideoId (fst (submit_request s)) = currentVideoId s"
    and "videoContainer (fst (submit_request s)) = [embed_video vid]"
    and "submit out s = submit_settle (trim (transcriptInput s)) vid out (fst (submit_request s))"
proof -
  from getYouTubeID_length [OF assms(1)] have v: "vid \<noteq> []" by auto
  from assms(2) have t: "trim (transcriptInput s) \<noteq> []" "\<not> length (trim (transcriptInput s)) < 100"
    by auto
  show "snd (submit_request s) =
           Some (buildPrompt (trim (transcriptInput s)) [], trim (transcriptInput s), vid)"
    using assms(1) v t
    by (simp add: submit_request_def Let_def case_prod_beta generateQuiz_request_fields)
  show "previousQuestions (fst (submit_request s)) = []"
    using assms(1) v t
    by (simp add: submit_request_def Let_def case_prod_beta generateQuiz_request_fields)
  show "currentTranscript (fst (submit_request s)) = currentTranscript s"
    using assms(1) v t
    by (simp add: submit_request_def Let_def case_prod_beta generateQuiz_request_fields
        clearOutput_def setLoading_def)
  show "currentVideoId (fst (submit_request s)) = currentVideoId s"
    using assms(1) v t
    by (simp add: submit_request_def Let_def case_prod_beta generateQuiz_request_fields
        clearOutput_def setLoading_def)
  show "videoContainer (fst (submit_request s)) = [embed_video vid]"
    using assms(1) v t
    by (simp add: submit_request_def Let_def case_prod_beta generateQuiz_request_fields)
  show "submit out s = submit_settle (trim (transcriptInput s)) vid out (fst (submit_request s))"
    using assms(1) v t
    by (simp add: submit_def submit_request_def Let_def case_prod_beta)
qed

lemma submit_settle_fields:
  "currentTranscript (submit_settle tr vid out s) = Some tr"
  "currentVideoId (submit_settle tr vid out s) = Some vid"
  "previousQuestions (submit_settle tr vid out s) = previousQuestions (generateQuiz_settle out s)"
  "videoContainer (submit_settle tr vid out s) = videoContainer (generateQuiz_settle out s)"
  by (simp_all add: submit_settle_def setLoading_def Let_def)

lemma submit_request_cases:
  assumes "submit_request s = (s', Some (p, tr, vid))"
  shows "getYouTubeID (trim (urlInput s)) = Some vid \<and> 100 \<le> length (trim (transcriptInput s))
         \<and> tr = trim (transcriptInput s)"
  using assms
  by (cases "getYouTubeID (trim (urlInput s))")
     (auto simp add: submit_request_def Let_def case_prod_beta split: if_splits)

lemma filled_form_inputs:
  "getYouTubeID (trim (urlInput filled_form)) = Some ''dQw4w9WgXcQ''"
  "100 \<le> length (trim (transcriptInput filled_form))"
  "trim (transcriptInput filled_form) = demo_transcript"
  by (simp_all add: filled_form_def demo_inputs demo_transcript_trim demo_transcript_length)

lemma filled_form_request:
  "submit_request filled_form =
     (fst (submit_request filled_form),
      Some (buildPrompt demo_transcript [], demo_transcript, ''dQw4w9WgXcQ''))"
  using submit_valid(1) [OF filled_form_inputs(1,2)]
  by (simp add: filled_form_inputs(3) prod_eq_iff)

lemma demo_quiz_nonempty: "demo_quiz \<noteq> []"
  by (simp add: demo_quiz_def)

lemma after_demo_submit:
  "currentTranscript (submit (Parses demo_quiz) filled_form) = Some demo_transcript"
  "currentVideoId (submit (Parses demo_quiz) filled_form) = Some ''dQw4w9WgXcQ''"
  "previousQuestions (submit (Parses demo_quiz) filled_form) = map Question demo_quiz"
  "videoContainer (submit (Parses demo_quiz) filled_form) = [embed_video ''dQw4w9WgXcQ'']"
  using demo_quiz_nonempty
  by (simp_all add: submit_valid [OF filled_form_inputs(1,2)] submit_settle_fields
      filled_form_inputs(3) generateQuiz_settle_quiz)

section \<open>The matcher on the pattern: auxiliary facts\<close>

lemma atoms_match:
  "rmatch (atoms cs) s (i, caps) =
     (if starts_with cs (drop i s) then [(i + length cs, caps)] else [])"
proof (induction cs arbitrary: i)
  case Nil
  then show ?case by (simp add: starts_with_def)
next
  case (Cons a cs)
  show ?case
  proof (cases "i < length s")
    case True
    then have d: "drop i s = s ! i # drop (Suc i) s" by (simp add: Cons_nth_drop_Suc)
    show ?thesis using True Cons.IH [of "Suc i"] by (simp add: starts_with_def d)
  next
    case False
    then show ?thesis by (simp add: starts_with_def)
  qed
qed

lemma markers_match:
  "(rmatch markers s (i, caps) = []) = (marker_len (drop i s) = None)"
  "marker_len (drop i s) = Some n \<Longrightarrow> hd (rmatch markers s (i, caps)) = (i + n, caps)"
  by (auto simp add: markers_def atoms_match marker_len_def marker_forms_def split: if_splits)

lemma group1_match:
  "(rmatch (Group 1 markers) s (i, caps) = []) = (marker_len (drop i s) = None)"
  "marker_len (drop i s) = Some n \<Longrightarrow>
     hd (rmatch (Group 1 markers) s (i, caps)) = (i + n, (1, take n (drop i s)) # caps)"
proof -
  show "(rmatch (Group 1 markers) s (i, caps) = []) = (marker_len (drop i s) = None)"
    by (simp add: markers_match(1))
  assume n: "marker_len (drop i s) = Some n"
  then have ne: "rmatch markers s (i, caps) \<noteq> []" by (simp add: markers_match(1))
  show "hd (rmatch (Group 1 markers) s (i, caps)) = (i + n, (1, take n (drop i s)) # caps)"
    using ne markers_match(2) [OF n, of caps] by (simp add: hd_map)
qed

lemma star_match_head:
  "rmatch (Star a) s (i, caps) =
     (i + length (takeWhile (cmatch a) (drop i s)), caps) #
     map (\<lambda>k. (i + k, caps)) (rev [0..<length (takeWhile (cmatch a) (drop i s))])"
  by simp

lemma take_length_takeWhile: "take (length (takeWhile P xs)) xs = takeWhile P xs"
  by (rule takeWhile_eq_take [symmetric])

lemma cmatch_id_char: "cmatch (NoneOf ''#&?'') = id_char"
  by (rule ext) (simp add: id_char_def)

lemma id_tail_match:
  "rmatch id_tail s (p, caps) \<noteq> []"
  "snd (hd (rmatch id_tail s (p, caps))) = (2, takeWhile id_char (drop p s)) # caps"
proof -
  let ?n = "length (takeWhile id_char (drop p s))"
  have g: "rmatch (Group 2 (Star (NoneOf ''#&?''))) s (p, caps) =
             (p + ?n, (2, takeWhile id_char (drop p s)) # caps) #
             map (\<lambda>(j, caps'). (j, (2, take (j - p) (drop p s)) # caps'))
               (map (\<lambda>k. (p + k, caps)) (rev [0..<?n]))"
    by (simp add: cmatch_id_char take_length_takeWhile)
  show "rmatch id_tail s (p, caps) \<noteq> []"
    unfolding id_tail_def rmatch.simps(5) g by simp
  show "snd (hd (rmatch id_tail s (p, caps))) = (2, takeWhile id_char (drop p s)) # caps"
    unfolding id_tail_def rmatch.simps(5) g by simp
qed

lemma marker_tail_match:
  "(rmatch (Seq (Group 1 markers) id_tail) s (i, caps) = []) = (marker_len (drop i s) = None)"
  "marker_len (drop i s) = Some n \<Longrightarrow>
     snd (hd (rmatch (Seq (Group 1 markers) id_tail) s (i, caps))) =
       (2, takeWhile id_char (drop (i + n) s)) # (1, take n (drop i s)) # caps"
proof -
  have nonempty: "\<And>st. rmatch id_tail s st \<noteq> []"
    using id_tail_match(1) by (metis surj_pair)
  have e: "(concat (map (rmatch id_tail s) xs) = []) = (xs = [])" for xs
    using nonempty by (cases xs) auto
  show "(rmatch (Seq (Group 1 markers) id_tail) s (i, caps) = []) = (marker_len (drop i s) = None)"
    unfolding rmatch.simps(5) e by (rule group1_match(1))
  assume n: "marker_len (drop i s) = Some n"
  have "rmatch (Group 1 markers) s (i, caps) \<noteq> []"
    using n group1_match(1) [of s i caps] by simp
  then obtain x xs where x: "rmatch (Group 1 markers) s (i, caps) = x # xs"
    by (cases "rmatch (Group 1 markers) s (i, caps)") auto
  with group1_match(2) [OF n, of caps] have xv: "x = (i + n, (1, take n (drop i s)) # caps)"
    by simp
  have "hd (rmatch (Seq (Group 1 markers) id_tail) s (i, caps)) = hd (rmatch id_tail s x)"
    unfolding rmatch.simps(5) x using nonempty [of x] by simp
  then show "snd (hd (rmatch (Seq (Group 1 markers) id_tail) s (i, caps))) =
       (2, takeWhile id_char (drop (i + n) s)) # (1, take n (drop i s)) # caps"
    by (simp add: xv id_tail_match(2))
qed

lemma scan_down_empty:
  "(concat (map g (rev [0..<Suc K])) = []) = (\<forall>k\<le>K. g k = [])"
  by (induction K) (auto simp: le_Suc_eq)

lemma scan_down_hd:
  "k \<le> K \<Longrightarrow> g k \<noteq> [] \<Longrightarrow> (\<forall>j. k < j \<and> j \<le> K \<longrightarrow> g j = []) \<Longrightarrow>
   hd (concat (map g (rev [0..<Suc K]))) = hd (g k)"
proof (induction K)
  case 0
  then show ?case by simp
next
  case (Suc K)
  show ?case
  proof (cases "k = Suc K")
    case True
    with Suc.prems(2) show ?thesis by simp
  next
    case False
    with Suc.prems have k: "k \<le> K" and e: "g (Suc K) = []" by auto
    from Suc.prems(3) have "\<forall>j. k < j \<and> j \<le> K \<longrightarrow> g j = []" by auto
    from Suc.IH [OF k Suc.prems(2) this] e show ?thesis by simp
  qed
qed

lemma cmatch_any: "cmatch AnyChar = (\<lambda>c. \<not> line_terminator c)"
  by (rule ext) simp

lemma regExp_exec:
  "regexp_exec regExp s =
     (case concat (map (\<lambda>k. rmatch (Seq (Group 1 markers) id_tail) s (k, []))
                    (rev [0..<Suc (line_end s)])) of
        [] \<Rightarrow> None
      | (j, caps) # _ \<Rightarrow> Some caps)"
proof -
  have later: "rmatch regExp s (i, []) = []" if "0 < i" for i
    using that by (simp add: regExp_def)
  have "map (\<lambda>i. rmatch regExp s (i, [])) [Suc 0..<Suc (length s)] =
        map (\<lambda>i. []) [Suc 0..<Suc (length s)]"
  proof (rule map_cong)
    fix i assume "i \<in> set [Suc 0..<Suc (length s)]"
    then have "0 < i" by (simp del: upt_Suc)
    then show "rmatch regExp s (i, []) = []" by (rule later)
  qed simp
  then have rest: "concat (map (\<lambda>i. rmatch regExp s (i, [])) [Suc 0..<Suc (length s)]) = []"
    by simp
  have split: "[0..<Suc (length s)] = 0 # [Suc 0..<Suc (length s)]"
    by (simp add: upt_rec)
  have first: "rmatch regExp s (0, []) =
      concat (map (\<lambda>k. rmatch (Seq (Group 1 markers) id_tail) s (k, []))
                    (rev [0..<Suc (line_end s)]))"
    by (simp add: regExp_def id_tail_def line_end_def comp_def cmatch_any del: upt_Suc)
  show ?thesis
    unfolding regexp_exec_def split by (simp only: list.map concat.simps rest first append_Nil2)
qed

lemma starts_with_lit: "starts_with (Lit a # cs) d \<Longrightarrow> d \<noteq> [] \<and> hd d = a"
  by (cases d) (auto simp: starts_with_def)

lemma find_some_mem: "find P xs = Some x \<Longrightarrow> P x \<and> x \<in> set xs"
  by (induction xs) (auto split: if_splits)

lemma marker_first_char:
  assumes "marker_len d = Some n"
  shows "d \<noteq> [] \<and> hd d \<in> set ''yvuew&''"
proof -
  from assms obtain cs where cs: "cs \<in> set marker_forms" "starts_with cs d"
    by (auto simp: marker_len_def dest: find_some_mem)
  then obtain a cs' where "cs = Lit a # cs'" "a \<in> set ''yvuew&''"
    by (auto simp: marker_forms_def lits_def)
  with cs(2) starts_with_lit [of a cs' d] show ?thesis by blast
qed

lemma no_marker_at_line_end: "marker_len (drop (line_end s) s) = None"
proof (cases "marker_len (drop (line_end s) s)")
  case None
  then show ?thesis .
next
  case (Some n)
  let ?d = "dropWhile (\<lambda>c. \<not> line_terminator c) s"
  have d: "drop (line_end s) s = ?d" by (simp add: line_end_def dropWhile_eq_drop)
  from marker_first_char [OF Some] have ne: "?d \<noteq> []" and h: "hd ?d \<in> set ''yvuew&''"
    by (simp_all add: d)
  from hd_dropWhile [OF ne] have "line_terminator (hd ?d)" by simp
  with h show ?thesis by (auto simp: line_terminator_def chr_code_def)
qed

lemma exec_result:
  "xs \<noteq> [] \<Longrightarrow> (case xs of [] \<Rightarrow> None | (j, caps) # _ \<Rightarrow> Some caps) = Some (snd (hd xs))"
  by (cases xs) (auto split: prod.splits)

lemma getYouTubeID_at:
  assumes "k \<le> line_end url" and "marker_len (drop k url) = Some n"
    and "\<forall>j. k < j \<and> j \<le> line_end url \<longrightarrow> marker_len (drop j url) = None"
  shows "getYouTubeID url =
           (if length (takeWhile id_char (drop (k + n) url)) = 11
            then Some (takeWhile id_char (drop (k + n) url)) else None)"
proof -
  let ?g = "\<lambda>k. rmatch (Seq (Group 1 markers) id_tail) url (k, [])"
  have gk: "?g k \<noteq> []" unfolding marker_tail_match(1) using assms(2) by simp
  have later: "\<forall>j. k < j \<and> j \<le> line_end url \<longrightarrow> ?g j = []"
    unfolding marker_tail_match(1) using assms(3) by simp
  have hd: "hd (concat (map ?g (rev [0..<Suc (line_end url)]))) = hd (?g k)"
    using assms(1) gk later by (rule scan_down_hd)
  have ne: "concat (map ?g (rev [0..<Suc (line_end url)])) \<noteq> []"
    using assms(1) gk scan_down_empty [of ?g "line_end url"] by blast
  have "regexp_exec regExp url = Some (snd (hd (?g k)))"
    unfolding regExp_exec exec_result [OF ne] hd ..
  then have "regexp_exec regExp url =
      Some [(2, takeWhile id_char (drop (k + n) url)), (1, take n (drop k url))]"
    by (simp only: marker_tail_match(2) [OF assms(2)])
  then show ?thesis by (simp add: getYouTubeID_def)
qed

lemma getYouTubeID_no_marker:
  assumes "\<forall>k\<le>line_end url. marker_len (drop k url) = None"
  shows "getYouTubeID url = None"
proof -
  let ?g = "\<lambda>k. rmatch (Seq (Group 1 markers) id_tail) url (k, [])"
  have "\<forall>k\<le>line_end url. ?g k = []" unfolding marker_tail_match(1) using assms by simp
  then have c: "concat (map ?g (rev [0..<Suc (line_end url)])) = []"
    by (simp only: scan_down_empty)
  have "regexp_exec regExp url = None" unfolding regExp_exec c by simp
  then show ?thesis by (simp add: getYouTubeID_def)
qed

section \<open>Events: auxiliary facts\<close>

lemma optionClick_frame:
  "generateBtn_disabled (optionClick qn oi s) = generateBtn_disabled s"
  "retakeBtn_disabled (optionClick qn oi s) = retakeBtn_disabled s"
  "urlInput (optionClick qn oi s) = urlInput s"
  "transcriptInput (optionClick qn oi s) = transcriptInput s"
  "currentTranscript (optionClick qn oi s) = currentTranscript s"
  "currentVideoId (optionClick qn oi s) = currentVideoId s"
  "totalQuestions (optionClick qn oi s) = totalQuestions s"
  "length (questionsList (optionClick qn oi s)) = length (questionsList s)"
  by (simp_all add: optionClick_def Let_def displayResults_def case_prod_beta)

lemma optionClick_other:
  "j \<noteq> qn \<Longrightarrow> questionsList (optionClick qn oi s) ! j = questionsList s ! j"
  by (simp add: optionClick_def Let_def displayResults_def case_prod_beta)

lemma retake_request_frame:
  "generateBtn_disabled (fst (retake_request s)) = generateBtn_disabled s"
  "urlInput (fst (retake_request s)) = urlInput s"
  "transcriptInput (fst (retake_request s)) = transcriptInput s"
  by (simp_all add: retake_request_def generateQuiz_request_def clearOutput_def Let_def)

lemma submit_valid_list:
  assumes "getYouTubeID (trim (urlInput s)) = Some vid"
    and "100 \<le> length (trim (transcriptInput s))"
  shows "questionsList (fst (submit_request s)) = []"
proof -
  from getYouTubeID_length [OF assms(1)] have v: "vid \<noteq> []" by auto
  from assms(2) have t: "trim (transcriptInput s) \<noteq> []" "\<not> length (trim (transcriptInput s)) < 100"
    by auto
  show ?thesis using assms(1) v t
    by (simp add: submit_request_def Let_def case_prod_beta generateQuiz_request_def clearOutput_def)
qed

lemma settle_quiz:
  assumes "qs \<noteq> []"
  shows "questionsList (generateQuiz_settle (Parses qs) s) =
           questionsList s @ map (\<lambda>(index, q). render_question index q) (enumerate 0 qs)"
    and "totalQuestions (generateQuiz_settle (Parses qs) s) = length qs"
    and "answeredQuestions (generateQuiz_settle (Parses qs) s) = 0"
    and "generateBtn_disabled (generateQuiz_settle (Parses qs) s) = generateBtn_disabled s"
    and "retakeBtn_disabled (generateQuiz_settle (Parses qs) s) = retakeBtn_disabled s"
    and "urlInput (generateQuiz_settle (Parses qs) s) = urlInput s"
    and "transcriptInput (generateQuiz_settle (Parses qs) s) = transcriptInput s"
  using assms by (simp_all add: generateQuiz_settle_Parses)

lemma submit_settle_quiz:
  assumes "qs \<noteq> []"
  shows "questionsList (submit_settle tr vid (Parses qs) s) =
           questionsList s @ map (\<lambda>(index, q). render_question index q) (enumerate 0 qs)"
    and "totalQuestions (submit_settle tr vid (Parses qs) s) = length qs"
    and "answeredQuestions (submit_settle tr vid (Parses qs) s) = 0"
    and "\<not> generateBtn_disabled (submit_settle tr vid (Parses qs) s)"
    and "retakeBtn_disabled (submit_settle tr vid (Parses qs) s) = retakeBtn_disabled s"
    and "urlInput (submit_settle tr vid (Parses qs) s) = urlInput s"
    and "transcriptInput (submit_settle tr vid (Parses qs) s) = transcriptInput s"
  by (simp_all add: submit_settle_def setLoading_def Let_def settle_quiz [OF assms])

lemma retake_settle_quiz:
  assumes "qs \<noteq> []"
  shows "questionsList (retake_settle (Parses qs) s) =
           questionsList s @ map (\<lambda>(index, q). render_question index q) (enumerate 0 qs)"
    and "totalQuestions (retake_settle (Parses qs) s) = length qs"
    and "answeredQuestions (retake_settle (Parses qs) s) = 0"
  by (simp_all add: retake_settle_def settle_quiz [OF assms])

lemma submit_request_frame:
  "retakeBtn_disabled (fst (submit_request s)) = retakeBtn_disabled s"
  "urlInput (fst (submit_request s)) = urlInput s"
  "transcriptInput (fst (submit_request s)) = transcriptInput s"
  by (simp_all add: submit_request_def Let_def case_prod_beta generateQuiz_request_def
      clearOutput_def setLoading_def)

lemma run_append:
  "run (es @ fs) c = (case run es c of None \<Rightarrow> None | Some c' \<Rightarrow> run fs c')"
  by (induction es arbitrary: c) (auto split: option.splits)

lemma retake_request_guarded_buttons:
  assumes "truthy (currentTranscript s)" "truthy (currentVideoId s)"
  shows "retakeBtn_disabled (fst (retake_request s))"
    and "restartBtn_disabled (fst (retake_request s))"
    and "questionsList (fst (retake_request s)) = []"
  using assms
  by (simp_all add: retake_request_def generateQuiz_request_def clearOutput_def Let_def)

lemma rendered_one:
  "map (\<lambda>(index, q). render_question index q) (enumerate 0 [q]) = [render_question 0 q]"
  by simp

lemma fire_submit_valid:
  assumes "\<not> generateBtn_disabled s"
    and "getYouTubeID (trim (urlInput s)) = Some vid"
    and "100 \<le> length (trim (transcriptInput s))"
  shows "fire SubmitForm (s, calls) =
           Some (fst (submit_request s), calls @ [SubmitFlow (trim (transcriptInput s)) vid])"
proof -
  obtain s' where "submit_request s =
      (s', Some (buildPrompt (trim (transcriptInput s)) [], trim (transcriptInput s), vid))"
    using submit_valid(1) [OF assms(2,3)] by (cases "submit_request s") auto
  then show ?thesis using assms(1) by simp
qed

lemma fire_retake_guarded:
  assumes "\<not> retakeBtn_disabled s"
    and "truthy (currentTranscript s)" and "truthy (currentVideoId s)"
  shows "fire ClickRetake (s, calls) = Some (fst (retake_request s), calls @ [RetakeFlow])"
proof -
  obtain s' p where "retake_request s = (s', Some p)"
    using retake_guarded(2) [OF assms(2,3)] by (cases "retake_request s") auto
  then show ?thesis using assms(1) by simp
qed

lemma filled_form_fields:
  "\<not> generateBtn_disabled filled_form"
  "\<not> retakeBtn_disabled filled_form"
  "urlInput filled_form = demo_url"
  "transcriptInput filled_form = demo_transcript"
  by (simp_all add: filled_form_def initial_app_def)

lemma quiz_done_reached:
  "run [TypeUrl demo_url, TypeTranscript demo_transcript, SubmitForm,
        Settle 0 (Parses [demo_question]), ClickOption 0 1] (initial_app, []) =
     Some (quiz_done, [])"
proof -
  let ?A = "submit (Parses [demo_question]) filled_form"
  note v = submit_valid [OF filled_form_inputs(1,2)]
  have g: "\<not> generateBtn_disabled filled_form"
    by (simp add: filled_form_def initial_app_def)
  have typed: "initial_app\<lparr>urlInput := demo_url, transcriptInput := demo_transcript\<rparr> = filled_form"
    by (simp add: filled_form_def)
  have s3: "fire SubmitForm (filled_form, []) =
      Some (fst (submit_request filled_form), [SubmitFlow demo_transcript ''dQw4w9WgXcQ''])"
    using fire_submit_valid [OF g filled_form_inputs(1,2), of "[]"]
    by (simp add: filled_form_inputs(3))
  have s4: "fire (Settle 0 (Parses [demo_question]))
       (fst (submit_request filled_form), [SubmitFlow demo_transcript ''dQw4w9WgXcQ'']) =
      Some (?A, [])"
    by (simp add: v(6) filled_form_inputs(3))
  have A_list: "questionsList ?A = [render_question 0 demo_question]"
    by (simp add: v(6) submit_settle_quiz(1) submit_valid_list [OF filled_form_inputs(1,2)])
  have opts: "length (options demo_question) = 4" by (simp add: demo_question_def)
  have s5: "fire (ClickOption 0 1) (?A, []) = Some (quiz_done, [])"
    by (simp add: A_list rendered_options opts quiz_done_def)
  have s1: "fire (TypeUrl demo_url) (initial_app, []) = Some (initial_app\<lparr>urlInput := demo_url\<rparr>, [])"
    by simp
  have s2: "fire (TypeTranscript demo_transcript) (initial_app\<lparr>urlInput := demo_url\<rparr>, []) =
      Some (filled_form, [])"
    by (simp add: typed)
  show ?thesis by (simp only: run.simps s1 s2 s3 s4 s5 option.case)
qed

lemma quiz_done_fields:
  "\<not> generateBtn_disabled quiz_done"
  "\<not> retakeBtn_disabled quiz_done"
  "urlInput quiz_done = demo_url"
  "transcriptInput quiz_done = demo_transcript"
  "truthy (currentTranscript quiz_done)"
  "truthy (currentVideoId quiz_done)"
proof -
  note v = submit_valid [OF filled_form_inputs(1,2)]
  have ne: "[demo_question] \<noteq> []" by simp
  show "\<not> generateBtn_disabled quiz_done"
    by (simp add: quiz_done_def optionClick_frame v(6) submit_settle_quiz(4) [OF ne])
  show "\<not> retakeBtn_disabled quiz_done"
    by (simp add: quiz_done_def optionClick_frame v(6) submit_settle_quiz(5) [OF ne]
        submit_request_frame filled_form_fields)
  show "urlInput quiz_done = demo_url"
    by (simp add: quiz_done_def optionClick_frame v(6) submit_settle_quiz(6) [OF ne]
        submit_request_frame filled_form_fields)
  show "transcriptInput quiz_done = demo_transcript"
    by (simp add: quiz_done_def optionClick_frame v(6) submit_settle_quiz(7) [OF ne]
        submit_request_frame filled_form_fields)
  have "demo_transcript \<noteq> []" by (simp add: demo_transcript_def)
  then show "truthy (currentTranscript quiz_done)"
    by (simp add: quiz_done_def optionClick_frame v(6) submit_settle_fields filled_form_inputs(3))
  show "truthy (currentVideoId quiz_done)"
    by (simp add: quiz_done_def optionClick_frame v(6) submit_settle_fields)
qed

lemma retake_started_reached:
  "run retake_started (initial_app, []) = Some (retake_waiting, [RetakeFlow])"
proof -
  have split: "retake_started =
      [TypeUrl demo_url, TypeTranscript demo_transcript, SubmitForm,
       Settle 0 (Parses [demo_question]), ClickOption 0 1] @ [ClickRetake]"
    by (simp add: retake_started_def)
  have "fire ClickRetake (quiz_done, []) = Some (retake_waiting, [RetakeFlow])"
    using fire_retake_guarded [OF quiz_done_fields(2,5,6), of "[]"]
    by (simp add: retake_waiting_def)
  then show ?thesis
    unfolding split run_append quiz_done_reached by (simp only: run.simps option.case)
qed

lemma retake_waiting_fields:
  "\<not> generateBtn_disabled retake_waiting"
  "retakeBtn_disabled retake_waiting"
  "restartBtn_disabled retake_waiting"
  "urlInput retake_waiting = demo_url"
  "transcriptInput retake_waiting = demo_transcript"
  by (simp_all add: retake_waiting_def retake_request_frame quiz_done_fields
      retake_request_guarded_buttons [OF quiz_done_fields(5,6)])

lemma retake_waiting_inputs:
  "getYouTubeID (trim (urlInput retake_waiting)) = Some ''dQw4w9WgXcQ''"
  "100 \<le> length (trim (transcriptInput retake_waiting))"
  "trim (transcriptInput retake_waiting) = demo_transcript"
  by (simp_all add: retake_waiting_fields demo_inputs demo_transcript_trim demo_transcript_length)

lemma second_submit_reached:
  "run second_submit (initial_app, []) =
     Some (both_waiting, [RetakeFlow, SubmitFlow demo_transcript ''dQw4w9WgXcQ''])"
proof -
  have "fire SubmitForm (retake_waiting, [RetakeFlow]) =
      Some (both_waiting, [RetakeFlow, SubmitFlow demo_transcript ''dQw4w9WgXcQ''])"
    using fire_submit_valid [OF retake_waiting_fields(1) retake_waiting_inputs(1,2), of "[RetakeFlow]"]
    by (simp add: retake_waiting_inputs(3) both_waiting_def)
  then show ?thesis
    unfolding second_submit_def run_append retake_started_reached
    by (simp only: run.simps option.case)
qed

lemma both_rendered_fields:
  "questionsList both_rendered =
     [render_question 0 demo_question, render_question 0 stray_question]"
  "totalQuestions both_rendered = 1"
  "answeredQuestions both_rendered = 0"
proof -
  have e: "questionsList both_waiting = []"
    unfolding both_waiting_def by (rule submit_valid_list [OF retake_waiting_inputs(1,2)])
  have n1: "[demo_question] \<noteq> []" and n2: "[stray_question] \<noteq> []" by simp_all
  show "questionsList both_rendered =
     [render_question 0 demo_question, render_question 0 stray_question]"
    unfolding both_rendered_def
    by (simp only: submit_settle_quiz(1) [OF n2] retake_settle_quiz(1) [OF n1] e rendered_one
        append_Nil append_Cons)
  show "totalQuestions both_rendered = 1"
    unfolding both_rendered_def by (simp add: submit_settle_quiz(2) [OF n2])
  show "answeredQuestions both_rendered = 0"
    unfolding both_rendered_def by (simp add: submit_settle_quiz(3) [OF n2])
qed

lemma both_answered_reached:
  "run both_answered (initial_app, []) = Some (both_clicked, [])"
proof -
  let ?G = "optionClick 0 0 both_rendered"
  have o1: "length (options demo_question) = 4" by (simp add: demo_question_def)
  have o2: "length (options stray_question) = 4" by (simp add: stray_question_def)
  have s1: "fire (Settle 0 (Parses [demo_question]))
        (both_waiting, [RetakeFlow, SubmitFlow demo_transcript ''dQw4w9WgXcQ'']) =
      Some (retake_settle (Parses [demo_question]) both_waiting,
            [SubmitFlow demo_transcript ''dQw4w9WgXcQ''])"
    by simp
  have s2: "fire (Settle 0 (Parses [stray_question]))
        (retake_settle (Parses [demo_question]) both_waiting,
         [SubmitFlow demo_transcript ''dQw4w9WgXcQ'']) =
      Some (both_rendered, [])"
    by (simp add: both_rendered_def)
  have s3: "fire (ClickOption 0 0) (both_rendered, []) = Some (?G, [])"
    by (simp add: both_rendered_fields(1) rendered_options o1)
  have G1: "questionsList ?G ! 1 = render_question 0 stray_question"
    by (simp add: optionClick_other both_rendered_fields(1))
  have Gl: "length (questionsList ?G) = 2"
    by (simp add: optionClick_frame(8) both_rendered_fields(1))
  have s4: "fire (ClickOption 1 0) (?G, []) = Some (both_clicked, [])"
    by (simp add: Gl G1 [unfolded One_nat_def] rendered_options o2 both_clicked_def)
  show ?thesis
    unfolding both_answered_def run_append second_submit_reached
    by (simp only: run.simps s1 s2 s3 s4 option.case)
qed

lemma optionClick_completes:
  assumes "qn < length (questionsList s)"
    and "oi < length (qi_options (questionsList s ! qn))"
    and "\<not> qi_answered (questionsList s ! qn)"
    and "answeredQuestions s + 1 = totalQuestions s"
  shows "resultsContainer_display (optionClick qn oi s) = ''block''"
  using assms by (simp add: optionClick_def Let_def case_prod_beta displayResults_def)

lemma quiz_done_results: "resultsContainer_display quiz_done = ''block''"
proof -
  let ?A = "submit (Parses [demo_question]) filled_form"
  note v = submit_valid [OF filled_form_inputs(1,2)]
  have ne: "[demo_question] \<noteq> []" by simp
  have A_list: "questionsList ?A = [render_question 0 demo_question]"
    by (simp add: v(6) submit_settle_quiz(1) submit_valid_list [OF filled_form_inputs(1,2)])
  have opts: "length (options demo_question) = 4" by (simp add: demo_question_def)
  have c: "answeredQuestions ?A + 1 = totalQuestions ?A"
    by (simp add: v(6) submit_settle_quiz(2,3) [OF ne])
  show ?thesis
    unfolding quiz_done_def
    by (rule optionClick_completes [OF _ _ _ c]) (simp_all add: A_list rendered_options opts)
qed

section \<open>The percentage: auxiliary facts\<close>

lemma bits_bounds: "0 < n \<Longrightarrow> 2 ^ (bits n - 1) \<le> n \<and> n < 2 ^ bits n"
proof (induction n rule: bits.induct)
  case (1 n)
  show ?case
  proof (cases "n div 2 = 0")
    case True
    with "1.prems" have "n = 1" by (auto simp: div_eq_0_iff)
    then show ?thesis by (simp add: bits.simps)
  next
    case False
    then have pos: "0 < n div 2" by simp
    from "1.IH" [OF _ pos] "1.prems"
    have ih: "2 ^ (bits (n div 2) - 1) \<le> n div 2" "n div 2 < 2 ^ bits (n div 2)" by simp_all
    have b: "bits n = Suc (bits (n div 2))" using "1.prems" by (subst bits.simps) simp
    have bp: "0 < bits (n div 2)" using pos by (subst bits.simps) simp
    from ih(1) have "2 * 2 ^ (bits (n div 2) - 1) \<le> n" by simp
    moreover have "2 * 2 ^ (bits (n div 2) - 1) = (2::nat) ^ bits (n div 2)"
      using bp by (cases "bits (n div 2)") simp_all
    moreover from ih(2) have "n < 2 * 2 ^ bits (n div 2)" by simp
    ultimately show ?thesis by (simp add: b)
  qed
qed

lemma bits_zero: "bits 0 = 0"
  by (simp add: bits.simps)

lemma bits_le: "n < 2 ^ k \<Longrightarrow> bits n \<le> k"
proof (cases "n = 0")
  case True
  then show ?thesis by (simp add: bits_zero)
next
  case False
  assume "n < 2 ^ k"
  with bits_bounds [of n] False have "(2::nat) ^ (bits n - 1) < 2 ^ k"
    by (meson le_less_trans neq0_conv)
  then have "bits n - 1 < k" by simp
  then show ?thesis by simp
qed

lemma bits_mono: "a \<le> b \<Longrightarrow> bits a \<le> bits b"
proof (cases "b = 0")
  case True
  assume "a \<le> b"
  with True show ?thesis by simp
next
  case False
  assume "a \<le> b"
  with bits_bounds [of b] False have "a < 2 ^ bits b" by simp
  then show ?thesis by (rule bits_le)
qed

lemma rne_error:
  assumes "0 < b"
  shows "\<bar>real (rne a b) - real a / real b\<bar> \<le> 1 / 2"
proof -
  define q r where "q = a div b" and "r = a mod b"
  have a: "real a = real q * real b + real r"
    unfolding q_def r_def by (metis div_mult_mod_eq of_nat_add of_nat_mult)
  have r: "r < b" unfolding r_def using assms by simp
  have quot: "real a / real b = real q + real r / real b"
    using assms by (simp add: a field_simps)
  have cases: "rne a b = (if 2 * r < b then q else if b < 2 * r then q + 1
                           else if even q then q else q + 1)"
    by (simp add: rne_def Let_def q_def r_def)
  have rb: "0 \<le> real r / real b" "real r / real b < 1" using r assms by simp_all
  show ?thesis
  proof (cases "2 * r < b")
    case True
    then have "real r / real b \<le> 1 / 2" using assms by (simp add: field_simps)
    with True rb show ?thesis by (simp add: cases quot)
  next
    case False
    note nlt = this
    show ?thesis
    proof (cases "b < 2 * r")
      case True
      then have "1 / 2 \<le> real r / real b" using assms by (simp add: field_simps)
      with True nlt rb show ?thesis by (simp add: cases quot)
    next
      case False
      with nlt have br: "b = 2 * r" by simp
      with assms have "0 < r" by simp
      then have half: "real r / real b = 1 / 2" by (simp add: br)
      have e: "rne a b = (if even q then q else q + 1)"
        unfolding cases using False nlt by simp
      show ?thesis unfolding quot half e by simp
    qed
  qed
qed

lemma rne_upper: "0 < b \<Longrightarrow> rne a b \<le> a div b + 1"
  by (simp add: rne_def Let_def)

lemma flog2_bounds:
  assumes "0 < c" and "c \<le> t"
  shows "flog2 c t \<le> 0 \<and> c * 2 ^ nat (- flog2 c t) < 2 * t"
proof -
  define a b where "a = bits c" and "b = bits t"
  define d where "d = b - a"
  from assms have tpos: "0 < t" by simp
  have ab: "a \<le> b" unfolding a_def b_def using assms(2) by (rule bits_mono)
  have t': "int a - int b = - int d" using ab by (simp add: d_def)
  from bits_bounds [OF assms(1)] have c_lt: "c < 2 ^ a" by (simp add: a_def)
  from bits_bounds [OF tpos] have t_ge: "2 ^ (b - 1) \<le> t" by (simp add: b_def)
  have bpos: "0 < b" unfolding b_def using tpos by (subst bits.simps) simp
  have "c * 2 ^ d < 2 ^ a * 2 ^ d" using c_lt by simp
  also have "\<dots> = 2 ^ b" using ab by (simp add: d_def power_add [symmetric])
  also have "\<dots> = 2 * 2 ^ (b - 1)" using bpos by (cases b) simp_all
  also have "\<dots> \<le> 2 * t" using t_ge by simp
  finally have up: "c * 2 ^ d < 2 * t" .
  have f: "flog2 c t = (if t \<le> c * 2 ^ d then - int d else - int d - 1)"
    by (simp add: flog2_def Let_def a_def [symmetric] b_def [symmetric] t')
  show ?thesis
  proof (cases "t \<le> c * 2 ^ d")
    case True
    with f up show ?thesis by simp
  next
    case False
    then have "c * 2 ^ d < t" by simp
    then have lt: "c * 2 ^ Suc d < 2 * t" by simp
    from False f have fv: "nat (- flog2 c t) = Suc d" and fn: "flog2 c t \<le> 0" by simp_all
    show ?thesis unfolding fv using fn lt by (intro conjI)
  qed
qed

lemma round53_bounds:
  assumes "0 < c" and "c \<le> t"
  defines "k \<equiv> nat (52 - flog2 c t)"
  shows "round53 c t = (rne (c * 2 ^ k) t, - int k)"
    and "52 \<le> k"
    and "rne (c * 2 ^ k) t \<le> 2 ^ 53"
proof -
  from flog2_bounds [OF assms(1,2)]
  have f: "flog2 c t \<le> 0" and up: "c * 2 ^ nat (- flog2 c t) < 2 * t" by simp_all
  from assms have tpos: "0 < t" by simp
  show k52: "52 \<le> k" using f by (simp add: k_def)
  have e: "flog2 c t - 52 = - int k" using f by (simp add: k_def)
  show "round53 c t = (rne (c * 2 ^ k) t, - int k)"
    by (simp add: round53_def Let_def e)
  have ksplit: "k = nat (- flog2 c t) + 52" using f by (simp add: k_def)
  have "c * 2 ^ k = (c * 2 ^ nat (- flog2 c t)) * 2 ^ 52"
    by (simp add: ksplit power_add)
  also have "\<dots> < (2 * t) * 2 ^ 52" using up by simp
  also have "\<dots> = 2 ^ 53 * t" by simp
  finally have "c * 2 ^ k < 2 ^ 53 * t" .
  then have "(c * 2 ^ k) div t < 2 ^ 53"
    using tpos by (simp add: less_mult_imp_div_less mult.commute)
  with rne_upper [OF tpos, of "c * 2 ^ k"] show "rne (c * 2 ^ k) t \<le> 2 ^ 53" by simp
qed

lemma times100_bounds:
  assumes "m \<le> 2 ^ 53"
  shows "\<exists>m' k2. times100 (Finite m e) = Finite m' (e + int k2) \<and> k2 \<le> 7 \<and>
           \<bar>real m' * 2 ^ k2 - 100 * real m\<bar> \<le> 2 ^ k2 / 2"
proof (cases "53 < bits (100 * m)")
  case True
  define k2 where "k2 = bits (100 * m) - 53"
  from assms have "100 * m \<le> 100 * 2 ^ 53" by simp
  also have "\<dots> < (2::nat) ^ 60" by simp
  finally have "bits (100 * m) \<le> 60" by (rule bits_le)
  then have k7: "k2 \<le> 7" by (simp add: k2_def)
  have t: "times100 (Finite m e) = Finite (rne (100 * m) (2 ^ k2)) (e + int k2)"
    using True by (simp add: Let_def k2_def)
  from rne_error [of "2 ^ k2" "100 * m"]
  have "\<bar>real (rne (100 * m) (2 ^ k2)) - real (100 * m) / 2 ^ k2\<bar> \<le> 1 / 2" by simp
  then have le: "\<bar>real (rne (100 * m) (2 ^ k2)) - real (100 * m) / 2 ^ k2\<bar> * 2 ^ k2 \<le> 1 / 2 * 2 ^ k2"
    by (rule mult_right_mono) simp
  have eq: "\<bar>real (rne (100 * m) (2 ^ k2)) - real (100 * m) / 2 ^ k2\<bar> * 2 ^ k2 =
      \<bar>real (rne (100 * m) (2 ^ k2)) * 2 ^ k2 - 100 * real m\<bar>"
  proof -
    have "\<bar>real (rne (100 * m) (2 ^ k2)) - real (100 * m) / 2 ^ k2\<bar> * 2 ^ k2 =
          \<bar>(real (rne (100 * m) (2 ^ k2)) - real (100 * m) / 2 ^ k2) * 2 ^ k2\<bar>"
      by (simp add: abs_mult)
    also have "(real (rne (100 * m) (2 ^ k2)) - real (100 * m) / 2 ^ k2) * 2 ^ k2 =
          real (rne (100 * m) (2 ^ k2)) * 2 ^ k2 - 100 * real m"
      by (simp add: field_simps)
    finally show ?thesis .
  qed
  have "\<bar>real (rne (100 * m) (2 ^ k2)) * 2 ^ k2 - 100 * real m\<bar> \<le> 2 ^ k2 / 2"
    using le unfolding eq by simp
  with t k7 show ?thesis by blast
next
  case False
  then have "times100 (Finite m e) = Finite (100 * m) (e + int 0)" by (simp add: Let_def)
  moreover have "\<bar>real (100 * m) * 2 ^ 0 - 100 * real m\<bar> \<le> 2 ^ 0 / 2" by simp
  ultimately show ?thesis by (metis zero_le)
qed

lemma math_round_floor:
  assumes "e < 0"
  shows "math_round (Finite m e) = Whole (nat \<lfloor>real m / 2 ^ nat (- e) + 1 / 2\<rfloor>)"
proof -
  define j where "j = nat (- e)"
  have "real m / 2 ^ j + 1 / 2 = real (2 * m + 2 ^ j) / real (2 ^ Suc j)"
    by (simp add: field_simps)
  then have "\<lfloor>real m / 2 ^ j + 1 / 2\<rfloor> = int ((2 * m + 2 ^ j) div 2 ^ Suc j)"
    by (simp only: floor_divide_of_nat_eq)
  then show ?thesis using assms by (simp add: j_def)
qed

lemma exact_percentage_floor:
  assumes "0 < t"
  shows "int (exact_percentage c t) = \<lfloor>100 * real c / real t + 1 / 2\<rfloor>"
proof -
  have "100 * real c / real t + 1 / 2 = real (200 * c + t) / real (2 * t)"
    using assms by (simp add: field_simps)
  then show ?thesis
    by (simp only: floor_divide_of_nat_eq exact_percentage_def)
qed

lemma round_stable:
  fixes Y :: real
  assumes "0 < t" and "\<not> halfway c t"
    and "\<bar>Y - 100 * real c / real t\<bar> < 1 / (2 * real t)"
  shows "\<lfloor>Y + 1 / 2\<rfloor> = int (exact_percentage c t)"
proof -
  define A B N r where "A = 200 * c + t" and "B = 2 * t" and "N = A div B" and "r = A mod B"
  have Bpos: "0 < B" using assms(1) by (simp add: B_def)
  have r1: "1 \<le> r" using assms(2) by (simp add: halfway_def r_def A_def B_def)
  have r2: "r + 1 \<le> B" using Bpos by (simp add: r_def Suc_leI)
  have A: "A = N * B + r" by (simp add: N_def r_def)
  have lo: "real N * real B + 1 \<le> real A"
  proof -
    have "N * B + 1 \<le> A" using r1 by (simp add: A)
    then have "real (N * B + 1) \<le> real A" by (simp only: of_nat_le_iff)
    then show ?thesis by (simp add: algebra_simps)
  qed
  have hi: "real A + 1 \<le> (real N + 1) * real B"
  proof -
    have "A + 1 \<le> (N + 1) * B" using r2 by (simp add: A)
    then have "real (A + 1) \<le> real ((N + 1) * B)" by (simp only: of_nat_le_iff)
    then show ?thesis by (simp add: algebra_simps)
  qed
  have tB: "real B = 2 * real t" by (simp add: B_def)
  have tpos: "0 < real t" using assms(1) by simp
  from assms(3) have "\<bar>Y - 100 * real c / real t\<bar> * real B < 1 / (2 * real t) * real B"
    using Bpos by (simp only: mult_less_cancel_right_pos of_nat_0_less_iff)
  then have "\<bar>(Y - 100 * real c / real t) * real B\<bar> < 1"
    using tpos by (simp add: abs_mult tB)
  moreover have "(Y - 100 * real c / real t) * real B = (Y + 1 / 2) * real B - real A"
    using tpos by (simp add: tB A_def field_simps)
  ultimately have d: "\<bar>(Y + 1 / 2) * real B - real A\<bar> < 1" by simp
  from d lo have "real N * real B < (Y + 1 / 2) * real B" by linarith
  then have l: "real N < Y + 1 / 2"
    using Bpos by (simp only: mult_less_cancel_right_pos of_nat_0_less_iff)
  from d hi have "(Y + 1 / 2) * real B < (real N + 1) * real B" by linarith
  then have u: "Y + 1 / 2 < real N + 1"
    using Bpos by (simp only: mult_less_cancel_right_pos of_nat_0_less_iff)
  have "\<lfloor>Y + 1 / 2\<rfloor> = int N"
    by (rule floor_unique) (use l u in simp_all)
  then show ?thesis by (simp add: exact_percentage_def N_def A_def B_def)
qed

lemma percentage_of_zero: "0 < t \<Longrightarrow> percentage_of 0 t = Whole 0"
  by (simp add: percentage_of_def num_div_def bits_zero Let_def)

lemma exact_percentage_zero: "0 < t \<Longrightarrow> exact_percentage 0 t = 0"
  by (simp add: exact_percentage_def)

lemma percentage_of_near:
  assumes "0 < c" and "c \<le> t" and "t < 2 ^ 44"
  shows "\<exists>Y::real. percentage_of c t = Whole (nat \<lfloor>Y + 1 / 2\<rfloor>) \<and>
           \<bar>Y - 100 * real c / real t\<bar> < 1 / (2 * real t)"
proof -
  define k where "k = nat (52 - flog2 c t)"
  define m where "m = rne (c * 2 ^ k) t"
  from assms have tpos: "0 < t" by simp
  note rb = round53_bounds [OF assms(1,2), folded k_def, folded m_def]
  have nd: "num_div c t = Finite m (- int k)"
    using assms(1) tpos by (simp add: num_div_def rb(1))
  from times100_bounds [OF rb(3), of "- int k"] obtain m' k2
    where t100: "times100 (Finite m (- int k)) = Finite m' (- int k + int k2)"
      and k7: "k2 \<le> 7"
      and err2: "\<bar>real m' * 2 ^ k2 - 100 * real m\<bar> \<le> 2 ^ k2 / 2" by blast
  have kk: "k2 \<le> k" using k7 rb(2) by simp
  have neg: "- int k + int k2 < 0" using k7 rb(2) by simp
  have j: "nat (- (- int k + int k2)) = k - k2" using kk by simp
  define Y where "Y = real m' / 2 ^ (k - k2)"
  have pct: "percentage_of c t = Whole (nat \<lfloor>Y + 1 / 2\<rfloor>)"
    by (simp only: percentage_of_def nd t100 math_round_floor [OF neg] j Y_def)
  have pw: "(2::real) ^ k = 2 ^ (k - k2) * 2 ^ k2"
    using kk by (simp add: power_add [symmetric])
  have Yk: "Y = real m' * 2 ^ k2 / 2 ^ k"
    by (simp add: Y_def pw)
  have e2: "\<bar>Y - 100 * real m / 2 ^ k\<bar> \<le> 64 / 2 ^ k"
  proof -
    have "(2::real) ^ k2 \<le> 2 ^ 7"
      using k7 by (simp only: power_increasing_iff one_less_numeral_iff semiring_norm)
    then have h64: "(2::real) ^ k2 / 2 \<le> 64" by simp
    have "Y - 100 * real m / 2 ^ k = (real m' * 2 ^ k2 - 100 * real m) / 2 ^ k"
      by (simp add: Yk diff_divide_distrib)
    then have "\<bar>Y - 100 * real m / 2 ^ k\<bar> = \<bar>real m' * 2 ^ k2 - 100 * real m\<bar> / 2 ^ k"
      by simp
    also have "\<dots> \<le> (2 ^ k2 / 2) / 2 ^ k"
      by (rule divide_right_mono [OF err2]) simp
    also have "\<dots> \<le> 64 / 2 ^ k"
      by (rule divide_right_mono [OF h64]) simp
    finally show ?thesis .
  qed
  have e1: "\<bar>real m / 2 ^ k - real c / real t\<bar> \<le> (1 / 2) / 2 ^ k"
  proof -
    from rne_error [OF tpos, of "c * 2 ^ k"]
    have h: "\<bar>real m - real (c * 2 ^ k) / real t\<bar> \<le> 1 / 2" by (simp add: m_def)
    have "\<bar>real m - real (c * 2 ^ k) / real t\<bar> / 2 ^ k \<le> (1 / 2) / 2 ^ k"
      by (rule divide_right_mono [OF h]) simp
    moreover have "real m / 2 ^ k - real c / real t = (real m - real (c * 2 ^ k) / real t) / 2 ^ k"
      by (simp add: diff_divide_distrib)
    ultimately show ?thesis by simp
  qed
  have tri: "\<bar>y - 100 * x\<bar> \<le> \<bar>y - 100 * q\<bar> + 100 * \<bar>q - x\<bar>" for y q x :: real
  proof -
    have "y - 100 * x = (y - 100 * q) + 100 * (q - x)" by simp
    then have "\<bar>y - 100 * x\<bar> \<le> \<bar>y - 100 * q\<bar> + \<bar>100 * (q - x)\<bar>"
      by (simp only: abs_triangle_ineq)
    moreover have "\<bar>100 * (q - x)\<bar> = 100 * \<bar>q - x\<bar>"
      by (simp only: abs_mult abs_numeral)
    ultimately show ?thesis by (simp only:)
  qed
  have "\<bar>Y - 100 * real c / real t\<bar> \<le>
        \<bar>Y - 100 * real m / 2 ^ k\<bar> + 100 * \<bar>real m / 2 ^ k - real c / real t\<bar>"
    using tri [of Y "real c / real t" "real m / 2 ^ k"] by simp
  also have "\<dots> \<le> 64 / 2 ^ k + 100 * ((1 / 2) / 2 ^ k)"
    by (rule add_mono [OF e2 mult_left_mono [OF e1]]) simp
  also have "\<dots> = 114 / 2 ^ k" by simp
  also have "\<dots> \<le> 114 / 2 ^ 52"
  proof -
    have p: "(2::real) ^ 52 \<le> 2 ^ k"
      using rb(2) by (simp only: power_increasing_iff one_less_numeral_iff semiring_norm)
    show ?thesis by (rule divide_left_mono [OF p]) simp_all
  qed
  also have "\<dots> < 1 / (2 * real t)"
  proof -
    have "228 * t < 228 * 2 ^ 44" using assms(3) by simp
    also have "\<dots> < (2::nat) ^ 52" by simp
    finally have "real (228 * t) < real (2 ^ 52)" by (simp only: of_nat_less_iff)
    then have "228 * real t < 2 ^ 52" by simp
    then show ?thesis using tpos by (simp add: field_simps)
  qed
  finally have "\<bar>Y - 100 * real c / real t\<bar> < 1 / (2 * real t)" .
  with pct show ?thesis by blast
qed

lemma percentage_of_positive:
  assumes "0 < c" and "c \<le> t" and "t < 2 ^ 44" and "\<not> halfway c t"
  shows "percentage_of c t = Whole (exact_percentage c t)"
proof -
  from assms have tpos: "0 < t" by simp
  from percentage_of_near [OF assms(1,2,3)] obtain Y :: real
    where pct: "percentage_of c t = Whole (nat \<lfloor>Y + 1 / 2\<rfloor>)"
      and near: "\<bar>Y - 100 * real c / real t\<bar> < 1 / (2 * real t)" by blast
  from round_stable [OF tpos assms(4) near] pct show ?thesis by simp
qed

lemma round_halfway:
  fixes Y :: real
  assumes "0 < t" and "halfway c t"
    and "\<bar>Y - 100 * real c / real t\<bar> < 1 / (2 * real t)"
  shows "\<lfloor>Y + 1 / 2\<rfloor> = int (exact_percentage c t) \<or>
         \<lfloor>Y + 1 / 2\<rfloor> = int (exact_percentage c t) - 1"
proof -
  define A B N where "A = 200 * c + t" and "B = 2 * t" and "N = A div B"
  have Bpos: "0 < B" using assms(1) by (simp add: B_def)
  have B2: "2 \<le> real B" using assms(1) by (simp add: B_def)
  have "A mod B = 0" using assms(2) by (simp add: halfway_def A_def B_def)
  with div_mult_mod_eq [of A B] have A: "A = N * B" by (simp add: N_def)
  then have rA: "real A = real N * real B" by simp
  have tB: "real B = 2 * real t" by (simp add: B_def)
  have tpos: "0 < real t" using assms(1) by simp
  from assms(3) have "\<bar>Y - 100 * real c / real t\<bar> * real B < 1 / (2 * real t) * real B"
    using Bpos by (simp only: mult_less_cancel_right_pos of_nat_0_less_iff)
  then have "\<bar>(Y - 100 * real c / real t) * real B\<bar> < 1"
    using tpos by (simp add: abs_mult tB)
  moreover have "(Y - 100 * real c / real t) * real B = (Y + 1 / 2) * real B - real A"
    using tpos by (simp add: tB A_def field_simps)
  ultimately have d: "\<bar>(Y + 1 / 2) * real B - real A\<bar> < 1" by simp
  have "(real N - 1) * real B = real A - real B" by (simp add: rA algebra_simps)
  with d B2 have "(real N - 1) * real B < (Y + 1 / 2) * real B" by linarith
  then have l: "real N - 1 < Y + 1 / 2"
    using Bpos by (simp only: mult_less_cancel_right_pos of_nat_0_less_iff)
  have "(real N + 1) * real B = real A + real B" by (simp add: rA algebra_simps)
  with d B2 have "(Y + 1 / 2) * real B < (real N + 1) * real B" by linarith
  then have u: "Y + 1 / 2 < real N + 1"
    using Bpos by (simp only: mult_less_cancel_right_pos of_nat_0_less_iff)
  have N: "exact_percentage c t = N" by (simp add: exact_percentage_def N_def A_def B_def)
  show ?thesis
  proof (cases "real N \<le> Y + 1 / 2")
    case True
    have "\<lfloor>Y + 1 / 2\<rfloor> = int N"
      by (rule floor_unique) (use True u in simp_all)
    then show ?thesis by (simp add: N)
  next
    case False
    have "\<lfloor>Y + 1 / 2\<rfloor> = int N - 1"
      by (rule floor_unique) (use False l in simp_all)
    then show ?thesis by (simp add: N)
  qed
qed

lemma halfway_positive: "0 < t \<Longrightarrow> halfway c t \<Longrightarrow> 0 < c \<and> 1 \<le> exact_percentage c t"
proof -
  assume t: "0 < t" and h: "halfway c t"
  have c: "0 < c"
  proof (rule ccontr)
    assume "\<not> 0 < c"
    then have "c = 0" by simp
    with h t show False by (simp add: halfway_def)
  qed
  have "2 * t dvd 200 * c + t" using h by (simp add: halfway_def mod_eq_0_iff_dvd)
  then have "2 * t \<le> 200 * c + t" using c by (intro dvd_imp_le) simp_all
  then have "1 \<le> (200 * c + t) div (2 * t)" using t
    by (simp add: div_greater_zero_iff Suc_le_eq)
  with c show ?thesis by (simp add: exact_percentage_def)
qed

lemma percentage_of_halfway:
  assumes "0 < t" and "c \<le> t" and "t < 2 ^ 44" and "halfway c t"
  shows "percentage_of c t = Whole (exact_percentage c t) \<or>
         percentage_of c t = Whole (exact_percentage c t - 1)"
proof -
  from halfway_positive [OF assms(1,4)]
  have c: "0 < c" and n: "1 \<le> exact_percentage c t" by simp_all
  from percentage_of_near [OF c assms(2,3)] obtain Y :: real
    where pct: "percentage_of c t = Whole (nat \<lfloor>Y + 1 / 2\<rfloor>)"
      and near: "\<bar>Y - 100 * real c / real t\<bar> < 1 / (2 * real t)" by blast
  from round_halfway [OF assms(1,4) near] show ?thesis
  proof
    assume "\<lfloor>Y + 1 / 2\<rfloor> = int (exact_percentage c t)"
    with pct show ?thesis by simp
  next
    assume "\<lfloor>Y + 1 / 2\<rfloor> = int (exact_percentage c t) - 1"
    then have "nat \<lfloor>Y + 1 / 2\<rfloor> = exact_percentage c t - 1" using n by simp
    with pct show ?thesis by simp
  qed
qed

lemma percentage_of_exact:
  assumes "0 < t" and "c \<le> t" and "t < 2 ^ 44" and "\<not> halfway c t"
  shows "percentage_of c t = Whole (exact_percentage c t)"
proof (cases "c = 0")
  case True
  with assms(1) show ?thesis by (simp add: percentage_of_zero exact_percentage_zero)
next
  case False
  then have "0 < c" by simp
  then show ?thesis using assms(2,3,4) by (rule percentage_of_positive)
qed

lemma percentage_23_40: "percentage_of 23 40 = Whole 57"
proof -
  have b: "bits 23 = 5" "bits 40 = 6" by (simp_all add: bits.simps)
  have f: "flog2 23 40 = - 1" by (simp add: flog2_def Let_def b)
  have m: "rne (23 * 2 ^ 53) 40 = 5179139571476070" by (simp add: rne_def Let_def)
  have r: "round53 23 40 = (5179139571476070, - 53)"
    by (simp add: round53_def Let_def f) (simp add: m [simplified])
  have n: "num_div 23 40 = Finite 5179139571476070 (- 53)" by (simp add: num_div_def r)
  have bp: "bits 517913957147607000 = 59" by (simp add: bits.simps)
  have m': "rne 517913957147607000 64 = 8092405580431359" by (simp add: rne_def Let_def)
  have t: "times100 (Finite 5179139571476070 (- 53)) = Finite 8092405580431359 (- 47)"
    by (simp add: Let_def bp m')
  have "math_round (Finite 8092405580431359 (- 47)) = Whole 57" by simp
  then show ?thesis by (simp only: percentage_of_def n t)
qed

lemma exact_23_40: "exact_percentage 23 40 = 58" "halfway 23 40"
  by (simp_all add: exact_percentage_def halfway_def)

lemma percentage_1_8: "percentage_of 1 8 = Whole 13"
proof -
  have b: "bits (Suc 0) = Suc 0" "bits 8 = 4" by (simp_all add: bits.simps)
  have f: "flog2 (Suc 0) 8 = - 3" by (simp add: flog2_def Let_def b)
  have m: "rne (2 ^ 55) 8 = 4503599627370496" by (simp add: rne_def Let_def)
  have r: "round53 (Suc 0) 8 = (4503599627370496, - 55)"
    by (simp add: round53_def Let_def f) (simp add: m [simplified])
  have n: "num_div (Suc 0) 8 = Finite 4503599627370496 (- 55)" by (simp add: num_div_def r)
  have bp: "bits 450359962737049600 = 59" by (simp add: bits.simps)
  have m': "rne 450359962737049600 64 = 7036874417766400" by (simp add: rne_def Let_def)
  have t: "times100 (Finite 4503599627370496 (- 55)) = Finite 7036874417766400 (- 49)"
    by (simp add: Let_def bp m')
  have "math_round (Finite 7036874417766400 (- 49)) = Whole 13" by simp
  then have "percentage_of (Suc 0) 8 = Whole 13" by (simp only: percentage_of_def n t)
  then show ?thesis by simp
qed

lemma exact_1_8: "exact_percentage 1 8 = 13" "halfway 1 8"
  by (simp_all add: exact_percentage_def halfway_def)

lemma title_whole:
  "result_title (Whole n) =
     (if n = 100 then ''Perfect Score!'' else if 75 \<le> n then ''Great Job!''
      else if 50 \<le> n then ''Not Bad!'' else ''Better Luck Next Time!'')"
  by (simp add: result_title_def)

lemma displayResults_title:
  "resultsTitle (displayResults s) =
     result_title (percentage_of (correctAnswers s) (totalQuestions s))"
  by (simp add: displayResults_def Let_def)

lemma scenario_percentages:
  "percentage_of 5 5 = Whole 100" "percentage_of 4 5 = Whole 80"
  "percentage_of 3 5 = Whole 60" "percentage_of 1 5 = Whole 20"
proof -
  have e: "exact_percentage 5 5 = 100" "exact_percentage 4 5 = 80"
    "exact_percentage 3 5 = 60" "exact_percentage 1 5 = 20"
    by (simp_all add: exact_percentage_def)
  have h: "\<not> halfway 5 5" "\<not> halfway 4 5" "\<not> halfway 3 5" "\<not> halfway 1 5"
    by (simp_all add: halfway_def)
  show "percentage_of 5 5 = Whole 100"
    using percentage_of_exact [OF _ _ _ h(1)] by (simp add: e)
  show "percentage_of 4 5 = Whole 80"
    using percentage_of_exact [OF _ _ _ h(2)] by (simp add: e)
  show "percentage_of 3 5 = Whole 60"
    using percentage_of_exact [OF _ _ _ h(3)] by (simp add: e)
  show "percentage_of 1 5 = Whole 20"
    using percentage_of_exact [OF _ _ _ h(4)] by (simp add: exact_percentage_def)
qed

section \<open>One call at a time: auxiliary facts\<close>

lemma filter_update_length:
  "i < length xs \<Longrightarrow> P (xs ! i) \<Longrightarrow> \<not> P x \<Longrightarrow>
   Suc (length (filter P (xs[i := x]))) = length (filter P xs)"
proof (induction xs arbitrary: i)
  case Nil
  then show ?case by simp
next
  case (Cons y ys)
  show ?case
  proof (cases i)
    case 0
    with Cons.prems show ?thesis by simp
  next
    case (Suc j)
    with Cons.prems Cons.IH [of j] show ?thesis by simp
  qed
qed

lemma rendered_unanswered:
  "length (filter (\<lambda>item. \<not> qi_answered item)
     (map (\<lambda>(index, q). render_question index q) (enumerate n qs))) = length qs"
  by (induction qs arbitrary: n) (simp_all add: render_question_def)

lemma optionClick_counts:
  assumes "qn < length (questionsList s)"
    and "oi < length (qi_options (questionsList s ! qn))"
  shows "answeredQuestions (optionClick qn oi s) + unanswered (optionClick qn oi s) =
           answeredQuestions s + unanswered s"
proof (cases "qi_answered (questionsList s ! qn)")
  case True
  with assms(1) show ?thesis by (simp add: optionClick_answered)
next
  case False
  note f = optionClick_first [OF assms False]
  let ?x = "(questionsList s ! qn)\<lparr>qi_options :=
         fst (checkAnswer (qi_options (questionsList s ! qn)) oi
               (opt_value (qi_options (questionsList s ! qn) ! oi))
               (qi_answer (questionsList s ! qn)) (correctAnswers s)),
         qi_answered := True\<rparr>"
  have "Suc (length (filter (\<lambda>item. \<not> qi_answered item) ((questionsList s)[qn := ?x]))) =
        length (filter (\<lambda>item. \<not> qi_answered item) (questionsList s))"
    by (rule filter_update_length [OF assms(1)]) (use False in simp_all)
  then have "Suc (unanswered (optionClick qn oi s)) = unanswered s"
    by (simp only: unanswered_def f(1))
  with f(3) show ?thesis by simp
qed

lemma submit_request_counts:
  "totalQuestions (fst (submit_request s)) = totalQuestions s"
  "answeredQuestions (fst (submit_request s)) = answeredQuestions s"
  "snd (submit_request s) = None \<Longrightarrow> questionsList (fst (submit_request s)) = questionsList s"
  "snd (submit_request s) \<noteq> None \<Longrightarrow> questionsList (fst (submit_request s)) = []"
  by (auto simp add: submit_request_def Let_def case_prod_beta generateQuiz_request_def
      clearOutput_def setLoading_def split: if_splits)

lemma retake_request_counts:
  "totalQuestions (fst (retake_request s)) = totalQuestions s"
  "answeredQuestions (fst (retake_request s)) = answeredQuestions s"
  "snd (retake_request s) = None \<Longrightarrow> questionsList (fst (retake_request s)) = questionsList s"
  "snd (retake_request s) \<noteq> None \<Longrightarrow> questionsList (fst (retake_request s)) = []"
  by (auto simp add: retake_request_def Let_def case_prod_beta generateQuiz_request_def
      clearOutput_def split: if_splits)

lemma restart_counts:
  "totalQuestions (restart s) = totalQuestions s"
  "answeredQuestions (restart s) = answeredQuestions s"
  "questionsList (restart s) = []"
  by (simp_all add: restart_def clearOutput_def Let_def)

lemma render_each_unanswered:
  "unanswered (fst (render_each i es s)) \<le> unanswered s + length es"
proof (induction i es s rule: render_each.induct)
  case (1 index s)
  then show ?case by simp
next
  case (2 index q rest s)
  have "unanswered (s\<lparr>questionsList := questionsList s @ [render_question index q]\<rparr>) =
        unanswered s + 1"
    by (simp add: unanswered_def render_question_def)
  with 2 show ?case by simp
next
  case (3 index tx message rest s)
  then show ?case by simp
qed

lemma settle_counts:
  assumes "questionsList s = []"
    and "answeredQuestions s \<le> totalQuestions s"
  shows "answeredQuestions (generateQuiz_settle out s) + unanswered (generateQuiz_settle out s)
           \<le> totalQuestions (generateQuiz_settle out s)"
proof (cases out)
  case (Rejects e)
  with assms(2) show ?thesis
    by (simp add: generateQuiz_settle_def displayError_def clearOutput_def unanswered_def)
next
  case (ParseFails m)
  with assms(2) show ?thesis
    by (simp add: generateQuiz_settle_def displayError_def clearOutput_def unanswered_def)
next
  case (ParsesTo es)
  let ?s0 = "s\<lparr>previousQuestions := previousQuestions s @ es\<rparr>"
  show ?thesis
  proof (cases "es = []")
    case True
    with ParsesTo assms(2) show ?thesis
      by (simp add: generateQuiz_settle_def renderQuestions_def displayError_def clearOutput_def
          unanswered_def)
  next
    case False
    let ?s1 = "?s0\<lparr>totalQuestions := length es, answeredQuestions := 0, correctAnswers := 0\<rparr>"
    let ?r = "render_each 0 es ?s1"
    have r: "renderQuestions es ?s0 = ?r" using False by (simp add: renderQuestions_def)
    have u0: "unanswered ?s1 = 0" using assms(1) by (simp add: unanswered_def)
    have t: "totalQuestions (fst ?r) = length es" "answeredQuestions (fst ?r) = 0"
      by (simp_all add: render_each_frame)
    from render_each_unanswered [of 0 es ?s1] u0
    have u: "unanswered (fst ?r) \<le> length es" by simp
    show ?thesis
    proof (cases "snd ?r")
      case None
      with t u show ?thesis
        unfolding ParsesTo generateQuiz_settle_ParsesTo r by simp
    next
      case (Some e)
      have "answeredQuestions (displayError m (fst ?r)) + unanswered (displayError m (fst ?r))
              \<le> totalQuestions (displayError m (fst ?r))" for m
        using t by (simp add: displayError_def clearOutput_def unanswered_def)
      with Some show ?thesis
        unfolding ParsesTo generateQuiz_settle_ParsesTo r by simp
    qed
  qed
qed

lemma settle_flow_counts:
  assumes "questionsList s = []"
    and "answeredQuestions s \<le> totalQuestions s"
  shows "answeredQuestions (settle_flow f out s) + unanswered (settle_flow f out s)
           \<le> totalQuestions (settle_flow f out s)"
  using settle_counts [OF assms, of out]
  by (cases f) (simp_all add: submit_settle_def retake_settle_def setLoading_def Let_def
      unanswered_def)

lemma counted_unfold:
  "counted (s, calls) \<longleftrightarrow>
     length calls \<le> 1 \<and> answeredQuestions s + unanswered s \<le> totalQuestions s \<and>
     (calls = [] \<or> questionsList s = [])"
  by (simp add: counted_def)

lemma unanswered_empty: "questionsList s = [] \<Longrightarrow> unanswered s = 0"
  by (simp add: unanswered_def)

lemma unanswered_same: "questionsList s' = questionsList s \<Longrightarrow> unanswered s' = unanswered s"
  by (simp add: unanswered_def)

lemma counted_step:
  assumes "counted (s, calls)" and "fire_alone e (s, calls) = Some c'"
  shows "counted c'"
proof -
  from assms(1) have len: "length calls \<le> 1"
    and sum: "answeredQuestions s + unanswered s \<le> totalQuestions s"
    and idle: "calls = [] \<or> questionsList s = []"
    by (simp_all add: counted_unfold)
  from sum have le: "answeredQuestions s \<le> totalQuestions s" by simp
  show ?thesis
  proof (cases e)
    case (TypeUrl u)
    with assms(2) have "c' = (s\<lparr>urlInput := u\<rparr>, calls)" by simp
    with len sum idle show ?thesis by (simp add: counted_unfold unanswered_def)
  next
    case (TypeTranscript t)
    with assms(2) have "c' = (s\<lparr>transcriptInput := t\<rparr>, calls)" by simp
    with len sum idle show ?thesis by (simp add: counted_unfold unanswered_def)
  next
    case SubmitForm
    with assms(2) have none: "calls = []" by (simp split: if_splits)
    show ?thesis
    proof (cases "snd (submit_request s)")
      case None
      with assms(2) SubmitForm none have c': "c' = (fst (submit_request s), [])"
        by (cases "submit_request s") (auto split: if_splits)
      from None have "unanswered (fst (submit_request s)) = unanswered s"
        by (intro unanswered_same submit_request_counts(3))
      with sum show ?thesis
        by (simp add: c' counted_unfold submit_request_counts(1,2))
    next
      case (Some r)
      with assms(2) SubmitForm none obtain f where c': "c' = (fst (submit_request s), [f])"
        by (cases "submit_request s") (auto split: if_splits prod.splits)
      from Some have e: "questionsList (fst (submit_request s)) = []"
        by (intro submit_request_counts(4)) simp
      with le show ?thesis
        by (simp add: c' counted_unfold submit_request_counts(1,2) unanswered_empty)
    qed
  next
    case ClickRetake
    with assms(2) have none: "calls = []" by (simp split: if_splits)
    show ?thesis
    proof (cases "snd (retake_request s)")
      case None
      with assms(2) ClickRetake none have c': "c' = (fst (retake_request s), [])"
        by (cases "retake_request s") (auto split: if_splits)
      from None have "unanswered (fst (retake_request s)) = unanswered s"
        by (intro unanswered_same retake_request_counts(3))
      with sum show ?thesis
        by (simp add: c' counted_unfold retake_request_counts(1,2))
    next
      case (Some r)
      with assms(2) ClickRetake none have c': "c' = (fst (retake_request s), [RetakeFlow])"
        by (cases "retake_request s") (auto split: if_splits)
      from Some have e: "questionsList (fst (retake_request s)) = []"
        by (intro retake_request_counts(4)) simp
      with le show ?thesis
        by (simp add: c' counted_unfold retake_request_counts(1,2) unanswered_empty)
    qed
  next
    case ClickRestart
    with assms(2) have c': "c' = (restart s, calls)" by (simp split: if_splits)
    from le len show ?thesis
      by (simp add: c' counted_unfold restart_counts unanswered_empty)
  next
    case (ClickOption qn oi)
    with assms(2) have en: "qn < length (questionsList s)"
      "oi < length (qi_options (questionsList s ! qn))"
      and c': "c' = (optionClick qn oi s, calls)"
      by (simp_all split: if_splits)
    from en(1) idle have none: "calls = []" by auto
    from optionClick_counts [OF en] sum show ?thesis
      by (simp add: c' none counted_unfold optionClick_frame(7))
  next
    case (Settle i out)
    with assms(2) have i: "i < length calls"
      and c': "c' = (settle_flow (calls ! i) out s, take i calls @ drop (Suc i) calls)"
      by (simp_all split: if_splits)
    from i len have rest: "take i calls @ drop (Suc i) calls = []" by simp
    from i idle have e: "questionsList s = []" by auto
    from settle_flow_counts [OF e le, of "calls ! i" out] show ?thesis
      by (simp add: c' rest counted_unfold)
  qed
qed

lemma counted_run:
  "counted c \<Longrightarrow> run_alone es c = Some c' \<Longrightarrow> counted c'"
proof (induction es arbitrary: c)
  case Nil
  then show ?case by simp
next
  case (Cons e es)
  from Cons.prems(2) obtain c1 where f: "fire_alone e c = Some c1" and r: "run_alone es c1 = Some c'"
    by (auto split: option.splits)
  obtain s calls where c: "c = (s, calls)" by (cases c)
  from Cons.prems(1) f have "counted c1" unfolding c by (rule counted_step)
  then show ?case using r by (rule Cons.IH)
qed

lemma counted_initial: "counted (initial_app, [])"
  by (simp add: counted_unfold unanswered_def initial_app_def)

section \<open>The session after a failed generation\<close>

text \<open>
  Claim C1, as stated: after a generation failure during submit or retake, the transcript,
  the identifier and the history have the values they had when the generator was called.
  For submit this is false. The handler assigns \<open>currentTranscript\<close> and \<open>currentVideoId\<close>
  after \<open>generateQuiz\<close> returns, and \<open>generateQuiz\<close> catches every error itself, so
  the two are assigned also when the generation failed: on the page as it loads, with
  the form filled in, both are absent when the generator is called and both are set
  after the failed submit. For the history it is false when the response parses and
  cannot be rendered: \<open>generateQuiz\<close> pushes the parsed entries onto the history before
  it calls \<open>renderQuestions\<close>, so a retake that fails on a response of one entry without
  options leaves a history of six entries where there were five.
\<close>

theorem failed_submit_stores_session:
  "is_failure (Rejects (ErrorObject ''Failed to fetch'')) \<and>
   snd (submit_request filled_form) \<noteq> None \<and>
   currentTranscript filled_form = None \<and>
   currentVideoId filled_form = None \<and>
   currentTranscript (fst (submit_request filled_form)) = None \<and>
   currentVideoId (fst (submit_request filled_form)) = None \<and>
   currentTranscript (submit (Rejects (ErrorObject ''Failed to fetch'')) filled_form) =
     Some demo_transcript \<and>
   currentVideoId (submit (Rejects (ErrorObject ''Failed to fetch'')) filled_form) =
     Some ''dQw4w9WgXcQ'' \<and>
   is_failure (ParsesTo [optionless]) \<and>
   snd (retake_request (submit (Parses demo_quiz) filled_form)) \<noteq> None \<and>
   previousQuestions (fst (retake_request (submit (Parses demo_quiz) filled_form))) =
     map Question demo_quiz \<and>
   length (map Question demo_quiz) = 5 \<and>
   previousQuestions (retake (ParsesTo [optionless]) (submit (Parses demo_quiz) filled_form)) =
     map Question demo_quiz @ [optionless] \<and>
   errorMessage_text (retake (ParsesTo [optionless]) (submit (Parses demo_quiz) filled_form)) =
     ''Failed to generate quiz. q.options is undefined''"
proof -
  let ?s = "submit (Parses demo_quiz) filled_form"
  note v = submit_valid [OF filled_form_inputs(1,2)]
  have i: "currentTranscript filled_form = None" "currentVideoId filled_form = None"
    by (simp_all add: filled_form_def initial_app_def)
  have a: "is_failure (Rejects (ErrorObject ''Failed to fetch'')) \<and>
     snd (submit_request filled_form) \<noteq> None \<and>
     currentTranscript filled_form = None \<and>
     currentVideoId filled_form = None \<and>
     currentTranscript (fst (submit_request filled_form)) = None \<and>
     currentVideoId (fst (submit_request filled_form)) = None \<and>
     currentTranscript (submit (Rejects (ErrorObject ''Failed to fetch'')) filled_form) =
       Some demo_transcript \<and>
     currentVideoId (submit (Rejects (ErrorObject ''Failed to fetch'')) filled_form) =
       Some ''dQw4w9WgXcQ''"
    by (simp add: v submit_settle_fields i filled_form_inputs(3))
  have h1: "truthy (currentTranscript ?s)"
    by (simp add: after_demo_submit demo_transcript_def)
  have h2: "truthy (currentVideoId ?s)" by (simp add: after_demo_submit)
  note g = retake_guarded [OF h1 h2]
  have b1: "is_failure (ParsesTo [optionless])" by (simp add: optionless_def)
  have b2: "snd (retake_request ?s) \<noteq> None" by (simp add: g(2))
  have b3: "previousQuestions (fst (retake_request ?s)) = map Question demo_quiz"
    by (simp add: g(3) generateQuiz_request_fields after_demo_submit)
  have b4: "length (map Question demo_quiz) = 5" by (simp add: demo_quiz_def)
  have b5: "previousQuestions (retake (ParsesTo [optionless]) ?s) =
      map Question demo_quiz @ [optionless]"
    using h1 h2 by (simp add: retake_history after_demo_submit)
  have b6: "errorMessage_text (retake (ParsesTo [optionless]) ?s) =
      ''Failed to generate quiz. q.options is undefined''"
    by (simp add: g(1) retake_settle_def generateQuiz_settle_def renderQuestions_def
        optionless_def displayError_def)
  from a b1 b2 b3 b4 b5 b6 show ?thesis by (intro conjI) simp_all
qed

text \<open>
  Claim C1, amended: a generation failure during submit or retake is a call that rejects,
  a response on which \<open>JSON.parse\<close> throws, or a response that parses and on which
  \<open>renderQuestions\<close> throws. After a failed retake the transcript and the identifier are
  as they were; the history is as it was when the call rejected or \<open>JSON.parse\<close> threw,
  and is the old history followed by the entries of the response when the response
  parsed. When the generator is called during a submit that passed validation the
  history is empty; after the failed submit the history is still empty when the call
  rejected or \<open>JSON.parse\<close> threw, and holds the entries of the response when the
  response parsed; the transcript and the identifier are set to the trimmed transcript
  of the form and the identifier of its URL.
\<close>

theorem generation_failure_session:
  assumes "is_failure out"
  shows "currentTranscript (retake out s) = currentTranscript s \<and>
         currentVideoId (retake out s) = currentVideoId s \<and>
         ((\<forall>quizData. out \<noteq> ParsesTo quizData) \<longrightarrow>
            previousQuestions (retake out s) = previousQuestions s) \<and>
         (\<forall>quizData. out = ParsesTo quizData \<longrightarrow>
            quizData \<noteq> [] \<and>
            previousQuestions (retake out s) =
              (if truthy (currentTranscript s) \<and> truthy (currentVideoId s)
               then previousQuestions s @ quizData else previousQuestions s)) \<and>
         (\<forall>s' p tr vid. submit_request s = (s', Some (p, tr, vid)) \<longrightarrow>
            previousQuestions s' = [] \<and>
            ((\<forall>quizData. out \<noteq> ParsesTo quizData) \<longrightarrow>
               previousQuestions (submit out s) = []) \<and>
            (\<forall>quizData. out = ParsesTo quizData \<longrightarrow>
               previousQuestions (submit out s) = quizData) \<and>
            currentTranscript (submit out s) = Some tr \<and>
            currentVideoId (submit out s) = Some vid \<and>
            tr = trim (transcriptInput s) \<and>
            getYouTubeID (trim (urlInput s)) = Some vid)"
proof -
  have p0: "pushed out = []" if "\<forall>quizData. out \<noteq> ParsesTo quizData"
    using that by (cases out) simp_all
  have p1: "pushed out = quizData" if "out = ParsesTo quizData" for quizData
    using that by simp
  have ne: "quizData \<noteq> []" if "out = ParsesTo quizData" for quizData
    using that assms by auto
  have r1: "currentTranscript (retake out s) = currentTranscript s" by (rule retake_session)
  have r2: "currentVideoId (retake out s) = currentVideoId s" by (rule retake_session)
  have r3: "(\<forall>quizData. out \<noteq> ParsesTo quizData) \<longrightarrow>
      previousQuestions (retake out s) = previousQuestions s"
  proof
    assume "\<forall>quizData. out \<noteq> ParsesTo quizData"
    then have "pushed out = []" by (rule p0)
    then show "previousQuestions (retake out s) = previousQuestions s"
      by (simp add: retake_history)
  qed
  have r4: "\<forall>quizData. out = ParsesTo quizData \<longrightarrow>
      quizData \<noteq> [] \<and>
      previousQuestions (retake out s) =
        (if truthy (currentTranscript s) \<and> truthy (currentVideoId s)
         then previousQuestions s @ quizData else previousQuestions s)"
  proof (intro allI impI)
    fix quizData assume o: "out = ParsesTo quizData"
    from retake_history [of out s] p1 [OF o] ne [OF o]
    show "quizData \<noteq> [] \<and>
      previousQuestions (retake out s) =
        (if truthy (currentTranscript s) \<and> truthy (currentVideoId s)
         then previousQuestions s @ quizData else previousQuestions s)"
      by (simp only: simp_thms)
  qed
  have sub: "previousQuestions s' = [] \<and>
      ((\<forall>quizData. out \<noteq> ParsesTo quizData) \<longrightarrow> previousQuestions (submit out s) = []) \<and>
      (\<forall>quizData. out = ParsesTo quizData \<longrightarrow> previousQuestions (submit out s) = quizData) \<and>
      currentTranscript (submit out s) = Some tr \<and>
      currentVideoId (submit out s) = Some vid \<and>
      tr = trim (transcriptInput s) \<and>
      getYouTubeID (trim (urlInput s)) = Some vid"
    if req: "submit_request s = (s', Some (p, tr, vid))" for s' p tr vid
  proof -
    from submit_request_cases [OF req]
    have id: "getYouTubeID (trim (urlInput s)) = Some vid"
      and len: "100 \<le> length (trim (transcriptInput s))"
      and tr: "tr = trim (transcriptInput s)" by simp_all
    note v = submit_valid [OF id len]
    from req have s': "s' = fst (submit_request s)" by simp
    have h: "previousQuestions (submit out s) = pushed out"
      by (simp add: v(6) submit_settle_fields generateQuiz_settle_history v(2))
    have "previousQuestions s' = []" by (simp add: s' v(2))
    moreover have "(\<forall>quizData. out \<noteq> ParsesTo quizData) \<longrightarrow>
        previousQuestions (submit out s) = []"
      using p0 by (simp add: h)
    moreover have "\<forall>quizData. out = ParsesTo quizData \<longrightarrow>
        previousQuestions (submit out s) = quizData"
    proof (intro allI impI)
      fix quizData assume o: "out = ParsesTo quizData"
      from h p1 [OF o] show "previousQuestions (submit out s) = quizData" by (simp only:)
    qed
    moreover have "currentTranscript (submit out s) = Some tr"
      by (simp add: v(6) submit_settle_fields tr)
    moreover have "currentVideoId (submit out s) = Some vid"
      by (simp add: v(6) submit_settle_fields)
    ultimately show ?thesis using tr id by (intro conjI)
  qed
  from r1 r2 r3 r4 sub show ?thesis by blast
qed

theorem generation_failure_session_witness:
  "previousQuestions (retake (Rejects OtherValue) (submit (Parses demo_quiz) filled_form)) =
     previousQuestions (submit (Parses demo_quiz) filled_form) \<and>
   currentTranscript (submit (ParseFails ''Unexpected end of JSON input'') filled_form) =
     Some demo_transcript \<and>
   previousQuestions (submit (ParseFails ''Unexpected end of JSON input'') filled_form) = [] \<and>
   previousQuestions (submit (ParsesTo [optionless]) filled_form) = [optionless] \<and>
   currentVideoId (submit (ParsesTo [optionless]) filled_form) = Some ''dQw4w9WgXcQ'' \<and>
   previousQuestions (retake (ParsesTo [optionless]) (submit (Parses demo_quiz) filled_form)) =
     previousQuestions (submit (Parses demo_quiz) filled_form) @ [optionless]"
proof -
  let ?s = "submit (Parses demo_quiz) filled_form"
  have h: "truthy (currentTranscript ?s) \<and> truthy (currentVideoId ?s)"
    by (simp add: after_demo_submit demo_transcript_def)
  have f1: "is_failure (Rejects OtherValue)" by simp
  have f2: "is_failure (ParseFails ''Unexpected end of JSON input'')" by simp
  have f3: "is_failure (ParsesTo [optionless])" by (simp add: optionless_def)
  from generation_failure_session [OF f1, of "submit (Parses demo_quiz) filled_form"]
  have a: "previousQuestions (retake (Rejects OtherValue) (submit (Parses demo_quiz) filled_form)) =
     previousQuestions (submit (Parses demo_quiz) filled_form)" by simp
  from generation_failure_session [OF f2, of filled_form] filled_form_request
  have b: "currentTranscript (submit (ParseFails ''Unexpected end of JSON input'') filled_form) =
     Some demo_transcript \<and>
     previousQuestions (submit (ParseFails ''Unexpected end of JSON input'') filled_form) = []"
    by blast
  from generation_failure_session [OF f3, of filled_form] filled_form_request
  have c: "previousQuestions (submit (ParsesTo [optionless]) filled_form) = [optionless] \<and>
     currentVideoId (submit (ParsesTo [optionless]) filled_form) = Some ''dQw4w9WgXcQ''"
    by blast
  from generation_failure_session [OF f3, of ?s] h
  have d: "previousQuestions (retake (ParsesTo [optionless]) ?s) =
     previousQuestions ?s @ [optionless]"
    by simp
  from a b c d show ?thesis by (intro conjI) simp_all
qed

section \<open>The identifier of a URL\<close>

text \<open>
  Claim C2, as stated: \<open>getYouTubeID\<close> returns the 11-character token of a string that
  matches one of the recognized forms, and \<open>null\<close> for every other string. Both halves
  fail. The first string below holds the form \<open>youtu.be/<id>\<close> with an 11-character
  token and nothing else that the claim recognizes, and the result is \<open>null\<close>: the
  greedy \<open>.*\<close> that opens the pattern makes the last marker of the string count, here
  the \<open>v/\<close> at its end. The second string holds none of the recognized forms (the
  character between \<open>/u/\<close> and \<open>/\<close> is no digit) and the result is a token: the
  pattern has \<open>\w\<close> there, and \<open>v/\<close> and \<open>u/\<close> without the leading slash.
\<close>

theorem getYouTubeID_not_by_claimed_forms:
  "claimed_ids ''https://youtu.be/dQw4w9WgXcQ?ref=my.tv/'' = [''dQw4w9WgXcQ''] \<and>
   getYouTubeID ''https://youtu.be/dQw4w9WgXcQ?ref=my.tv/'' = None \<and>
   claimed_ids ''youtube.com/u/x/abcdefghijk'' = [] \<and>
   getYouTubeID ''youtube.com/u/x/abcdefghijk'' = Some ''abcdefghijk''"
  by code_simp

text \<open>
  Claim C2, amended: \<open>getYouTubeID\<close> returns \<open>t\<close> exactly when a marker
  (\<open>youtu\<close>, any character, \<open>be/\<close>; \<open>v/\<close>; \<open>u/\<close>, a word character, \<open>/\<close>;
  \<open>embed/\<close>; \<open>watch?v=\<close>; \<open>&v=\<close>) begins in the first line of the string, no marker
  begins after it in the first line, and \<open>t\<close> is the run of characters other than
  \<open>#\<close>, \<open>&\<close> and \<open>?\<close> that follows this last marker, and has exactly 11 characters.
  For every other string the result is \<open>null\<close>.
\<close>

theorem getYouTubeID_rightmost_marker:
  "getYouTubeID url = Some t \<longleftrightarrow>
     (\<exists>k n. k < line_end url \<and> marker_len (drop k url) = Some n \<and>
        (\<forall>j. k < j \<and> j < line_end url \<longrightarrow> marker_len (drop j url) = None) \<and>
        t = takeWhile id_char (drop (k + n) url) \<and> length t = 11)"
proof
  assume r: "getYouTubeID url = Some t"
  let ?P = "\<lambda>k. k \<le> line_end url \<and> marker_len (drop k url) \<noteq> None"
  from r getYouTubeID_no_marker [of url] obtain k0 where k0: "?P k0" by fastforce
  have bound: "\<And>y. ?P y \<Longrightarrow> y \<le> line_end url" by simp
  define k where "k = Greatest ?P"
  have Pk: "?P k" unfolding k_def using k0 bound by (rule GreatestI_nat)
  have max: "j \<le> k" if "?P j" for j
    unfolding k_def using that bound by (rule Greatest_le_nat)
  from Pk obtain n where n: "marker_len (drop k url) = Some n" by auto
  from Pk n no_marker_at_line_end [of url] have lt: "k < line_end url"
    by (cases "k = line_end url") auto
  have later: "\<forall>j. k < j \<and> j \<le> line_end url \<longrightarrow> marker_len (drop j url) = None"
    using max by (metis not_less)
  from getYouTubeID_at [OF _ n later] Pk r
  have "t = takeWhile id_char (drop (k + n) url) \<and> length t = 11"
    by (auto split: if_splits)
  moreover from later
  have "\<forall>j. k < j \<and> j < line_end url \<longrightarrow> marker_len (drop j url) = None" by simp
  ultimately show "\<exists>k n. k < line_end url \<and> marker_len (drop k url) = Some n \<and>
        (\<forall>j. k < j \<and> j < line_end url \<longrightarrow> marker_len (drop j url) = None) \<and>
        t = takeWhile id_char (drop (k + n) url) \<and> length t = 11"
    using lt n by blast
next
  assume "\<exists>k n. k < line_end url \<and> marker_len (drop k url) = Some n \<and>
        (\<forall>j. k < j \<and> j < line_end url \<longrightarrow> marker_len (drop j url) = None) \<and>
        t = takeWhile id_char (drop (k + n) url) \<and> length t = 11"
  then obtain k n where k: "k < line_end url" and n: "marker_len (drop k url) = Some n"
    and later: "\<forall>j. k < j \<and> j < line_end url \<longrightarrow> marker_len (drop j url) = None"
    and t: "t = takeWhile id_char (drop (k + n) url)" "length t = 11" by blast
  have later': "\<forall>j. k < j \<and> j \<le> line_end url \<longrightarrow> marker_len (drop j url) = None"
    using later no_marker_at_line_end [of url] by (metis le_neq_implies_less)
  from k have "k \<le> line_end url" by simp
  from getYouTubeID_at [OF this n later'] t show "getYouTubeID url = Some t" by simp
qed

theorem getYouTubeID_rightmost_marker_witness:
  "\<exists>k n. k < line_end demo_url \<and> marker_len (drop k demo_url) = Some n \<and>
     ''dQw4w9WgXcQ'' = takeWhile id_char (drop (k + n) demo_url)"
proof -
  have "getYouTubeID demo_url = Some ''dQw4w9WgXcQ''" by (rule demo_inputs(2))
  then show ?thesis
    unfolding getYouTubeID_rightmost_marker by blast
qed

section \<open>Outstanding calls\<close>

text \<open>
  Claim C3 says that at most one call to the model is outstanding in any reachable state,
  because every control that could start another is disabled meanwhile. The code does
  not do this. The retake handler disables the retake and the restart button and leaves
  the submit button of the form enabled, so the form can be submitted while the call of
  a retake is outstanding, and then two calls are outstanding. The session
  \<open>retake_started\<close> ends with the call of the retake outstanding, the retake and
  restart buttons disabled and the submit button enabled; one more submit
  (\<open>second_submit\<close>) is accepted and leaves two outstanding calls. When the user clicks
  the retake button in this session the results are on display and the button is
  enabled.
\<close>

theorem overlapping_generations_reachable:
  "run retake_started (initial_app, []) = Some (retake_waiting, [RetakeFlow]) \<and>
   retakeBtn_disabled retake_waiting \<and> restartBtn_disabled retake_waiting \<and>
   \<not> generateBtn_disabled retake_waiting \<and>
   run second_submit (initial_app, []) =
     Some (both_waiting, [RetakeFlow, SubmitFlow demo_transcript ''dQw4w9WgXcQ'']) \<and>
   reachable (both_waiting, [RetakeFlow, SubmitFlow demo_transcript ''dQw4w9WgXcQ'']) \<and>
   resultsContainer_display quiz_done = ''block'' \<and> \<not> retakeBtn_disabled quiz_done"
proof -
  have "reachable (both_waiting, [RetakeFlow, SubmitFlow demo_transcript ''dQw4w9WgXcQ''])"
    unfolding reachable_def using second_submit_reached by blast
  with retake_started_reached retake_waiting_fields(1,2,3) second_submit_reached
    quiz_done_results quiz_done_fields(2)
  show ?thesis by (intro conjI)
qed

section \<open>Retake\<close>

text \<open>
  Claim C4. When the retake handler runs with a transcript and an identifier set, the
  prompt it sends is built from the whole history, and the text of every entry of the
  history is part of that prompt. Up to the call the video container is untouched; when
  the call gives a non-empty list of questions the video container is still untouched
  and the history has grown by that list. Whatever the call gives, \<open>currentTranscript\<close>
  and \<open>currentVideoId\<close> are unchanged.
\<close>

theorem retake_excludes_history:
  assumes "truthy (currentTranscript s)" and "truthy (currentVideoId s)"
  shows "snd (retake_request s) =
           Some (buildPrompt (the (currentTranscript s)) (previousQuestions s)) \<and>
         (\<forall>q\<in>set (previousQuestions s). \<exists>pre post.
            buildPrompt (the (currentTranscript s)) (previousQuestions s) =
              pre @ entry_question q @ post) \<and>
         videoContainer (fst (retake_request s)) = videoContainer s \<and>
         (\<forall>qs. qs \<noteq> [] \<longrightarrow>
            videoContainer (retake (Parses qs) s) = videoContainer s \<and>
            previousQuestions (retake (Parses qs) s) = previousQuestions s @ map Question qs) \<and>
         (\<forall>out. currentTranscript (retake out s) = currentTranscript s \<and>
                currentVideoId (retake out s) = currentVideoId s)"
proof (intro conjI ballI allI impI)
  note g = retake_guarded [OF assms]
  show "snd (retake_request s) =
           Some (buildPrompt (the (currentTranscript s)) (previousQuestions s))"
    by (rule g(2))
  show "videoContainer (fst (retake_request s)) = videoContainer s"
    by (simp add: g(3) generateQuiz_request_fields)
  fix qs :: "QuizQuestion list" assume ne: "qs \<noteq> []"
  show "videoContainer (retake (Parses qs) s) = videoContainer s"
    by (simp add: g(1) retake_settle_fields generateQuiz_settle_quiz(1) [OF ne]
        generateQuiz_request_fields)
  show "previousQuestions (retake (Parses qs) s) = previousQuestions s @ map Question qs"
    by (simp add: g(1) retake_settle_fields generateQuiz_settle_quiz(2)
        generateQuiz_request_fields)
next
  fix q assume "q \<in> set (previousQuestions s)"
  then show "\<exists>pre post. buildPrompt (the (currentTranscript s)) (previousQuestions s) =
              pre @ entry_question q @ post"
    by (rule buildPrompt_contains)
next
  fix out
  show "currentTranscript (retake out s) = currentTranscript s" by (rule retake_session)
  show "currentVideoId (retake out s) = currentVideoId s" by (rule retake_session)
qed

theorem retake_excludes_history_witness:
  "snd (retake_request (submit (Parses demo_quiz) filled_form)) =
     Some (buildPrompt demo_transcript (map Question demo_quiz)) \<and>
   (\<exists>pre post. buildPrompt demo_transcript (map Question demo_quiz) =
      pre @ question demo_question @ post) \<and>
   videoContainer (retake (Parses [stray_question]) (submit (Parses demo_quiz) filled_form)) =
     [embed_video ''dQw4w9WgXcQ''] \<and>
   currentTranscript (retake (Parses [stray_question]) (submit (Parses demo_quiz) filled_form)) =
     Some demo_transcript"
proof -
  let ?s = "submit (Parses demo_quiz) filled_form"
  have h1: "truthy (currentTranscript ?s)"
    by (simp add: after_demo_submit demo_transcript_def)
  have h2: "truthy (currentVideoId ?s)" by (simp add: after_demo_submit)
  have "Question demo_question \<in> set (map Question demo_quiz)" by (simp add: demo_quiz_def)
  then have m: "Question demo_question \<in> set (previousQuestions ?s)"
    by (simp only: after_demo_submit)
  have n: "[stray_question] \<noteq> []" by simp
  note t = retake_excludes_history [OF h1 h2]
  from bspec [OF t [THEN conjunct2, THEN conjunct1] m]
  have c: "\<exists>pre post. buildPrompt demo_transcript (map Question demo_quiz) =
      pre @ question demo_question @ post"
    by (simp add: after_demo_submit)
  from t n have "snd (retake_request ?s) =
      Some (buildPrompt demo_transcript (map Question demo_quiz)) \<and>
    videoContainer (retake (Parses [stray_question]) ?s) = [embed_video ''dQw4w9WgXcQ''] \<and>
    currentTranscript (retake (Parses [stray_question]) ?s) = Some demo_transcript"
    by (simp add: after_demo_submit)
  with c show ?thesis by (intro conjI) simp_all
qed

section \<open>The percentage and the title\<close>

text \<open>
  Claim C5, as stated: for all counts \<open>correct \<le> total\<close> with \<open>total > 0\<close> the percentage
  is \<open>round(100 * correct / total)\<close>. The code computes
  \<open>Math.round((correctAnswers / totalQuestions) * 100)\<close> on doubles: the quotient is
  rounded, then the product. For 23 correct answers out of 40 the exact value is 57.5,
  which rounds to 58; the double nearest to 23/40 lies below it, the product is the double
  57.49999999999999, and the code shows 57.
\<close>

theorem percentage_23_of_40:
  "percentage_of 23 40 = Whole 57 \<and> exact_percentage 23 40 = 58 \<and>
   resultsTitle (displayResults (initial_app\<lparr>correctAnswers := 23, totalQuestions := 40\<rparr>)) =
     ''Not Bad!''"
  by (simp add: percentage_23_40 exact_23_40 displayResults_title title_whole)

text \<open>
  Claim C5, amended: for all counts \<open>correct \<le> total\<close> with \<open>0 < total < 2^44\<close> the
  percentage that \<open>displayResults\<close> computes on doubles is \<open>round(100 * correct / total)\<close>
  when \<open>100 * correct / total\<close> is not exactly halfway between two integers, and is
  \<open>round(100 * correct / total)\<close> or one less than it when \<open>100 * correct / total\<close> is
  exactly halfway; 1 of 8 gives 13, the half rounded up. The title is picked from the
  percentage by the first tier that matches: 100 gives \<open>Perfect Score!\<close>, at least 75
  \<open>Great Job!\<close>, at least 50 \<open>Not Bad!\<close>, anything less \<open>Better Luck Next Time!\<close>. In
  particular 5 of 5 gives 100, 4 of 5 gives 80, 3 of 5 gives 60 and 1 of 5 gives 20.
\<close>

theorem percentage_and_title:
  "(0 < t \<and> c \<le> t \<and> t < 2 ^ 44 \<and> \<not> halfway c t \<longrightarrow>
      percentage_of c t = Whole (exact_percentage c t)) \<and>
   (0 < t \<and> c \<le> t \<and> t < 2 ^ 44 \<and> halfway c t \<longrightarrow>
      percentage_of c t = Whole (exact_percentage c t) \<or>
      percentage_of c t = Whole (exact_percentage c t - 1)) \<and>
   halfway 1 8 \<and> percentage_of 1 8 = Whole 13 \<and> exact_percentage 1 8 = 13 \<and>
   resultsTitle (displayResults s) =
     result_title (percentage_of (correctAnswers s) (totalQuestions s)) \<and>
   result_title (Whole n) =
     (if n = 100 then ''Perfect Score!'' else if 75 \<le> n then ''Great Job!''
      else if 50 \<le> n then ''Not Bad!'' else ''Better Luck Next Time!'') \<and>
   percentage_of 5 5 = Whole 100 \<and> result_title (Whole 100) = ''Perfect Score!'' \<and>
   percentage_of 4 5 = Whole 80 \<and> result_title (Whole 80) = ''Great Job!'' \<and>
   percentage_of 3 5 = Whole 60 \<and> result_title (Whole 60) = ''Not Bad!'' \<and>
   percentage_of 1 5 = Whole 20 \<and> result_title (Whole 20) = ''Better Luck Next Time!''"
proof -
  have g: "0 < t \<and> c \<le> t \<and> t < 2 ^ 44 \<and> \<not> halfway c t \<longrightarrow>
      percentage_of c t = Whole (exact_percentage c t)"
    using percentage_of_exact [of t c] by blast
  have h: "0 < t \<and> c \<le> t \<and> t < 2 ^ 44 \<and> halfway c t \<longrightarrow>
      percentage_of c t = Whole (exact_percentage c t) \<or>
      percentage_of c t = Whole (exact_percentage c t - 1)"
    using percentage_of_halfway [of t c] by blast
  have t: "result_title (Whole 100) = ''Perfect Score!''" "result_title (Whole 80) = ''Great Job!''"
    "result_title (Whole 60) = ''Not Bad!''" "result_title (Whole 20) = ''Better Luck Next Time!''"
    by (simp_all add: title_whole)
  from g h exact_1_8 percentage_1_8 displayResults_title [of s] title_whole [of n]
    scenario_percentages t
  show ?thesis by (intro conjI)
qed

theorem percentage_and_title_witness:
  "0 < (3::nat) \<and> (2::nat) \<le> 3 \<and> (3::nat) < 2 ^ 44 \<and> \<not> halfway 2 3 \<and>
   percentage_of 2 3 = Whole 67 \<and> result_title (Whole 67) = ''Not Bad!'' \<and>
   0 < (40::nat) \<and> (3::nat) \<le> 40 \<and> (40::nat) < 2 ^ 44 \<and> halfway 3 40 \<and>
   (percentage_of 3 40 = Whole 8 \<or> percentage_of 3 40 = Whole 7)"
proof -
  have h: "0 < (3::nat) \<and> (2::nat) \<le> 3 \<and> (3::nat) < 2 ^ 44 \<and> \<not> halfway 2 3"
    by (simp add: halfway_def)
  have e: "exact_percentage 2 3 = 67" by (simp add: exact_percentage_def)
  have h': "0 < (40::nat) \<and> (3::nat) \<le> 40 \<and> (40::nat) < 2 ^ 44 \<and> halfway 3 40"
    by (simp add: halfway_def)
  have e': "exact_percentage 3 40 = 8" by (simp add: exact_percentage_def)
  from percentage_and_title [of 3 2 initial_app 67] h e
  have a: "percentage_of 2 3 = Whole 67 \<and> result_title (Whole 67) = ''Not Bad!''" by simp
  from percentage_and_title [of 40 3 initial_app 67] h' e'
  have b: "percentage_of 3 40 = Whole 8 \<or> percentage_of 3 40 = Whole 7" by simp
  from h a h' b show ?thesis by (intro conjI) simp_all
qed

section \<open>Marking the options\<close>

text \<open>
  Claim C6. Take a question as it is rendered, whose answer equals exactly one of its
  options, and click one of its options. Afterwards exactly one option is marked correct,
  an option is marked correct exactly when its text equals the answer, and at most one
  option is marked both selected and incorrect.
\<close>

theorem answered_marks_one_correct:
  assumes "qn < length (questionsList s)"
    and "questionsList s ! qn = render_question idx q"
    and "oi < length (options q)"
    and "\<exists>!j. j < length (options q) \<and> options q ! j = answer q"
  shows "length (qi_options (questionsList (optionClick qn oi s) ! qn)) = length (options q) \<and>
         (\<exists>!j. j < length (options q) \<and>
                opt_correct (qi_options (questionsList (optionClick qn oi s) ! qn) ! j)) \<and>
         (\<forall>j<length (options q).
            opt_correct (qi_options (questionsList (optionClick qn oi s) ! qn) ! j) \<longleftrightarrow>
            opt_value (qi_options (questionsList (optionClick qn oi s) ! qn) ! j) = answer q) \<and>
         (\<forall>i<length (options q). \<forall>j<length (options q).
            opt_selected (qi_options (questionsList (optionClick qn oi s) ! qn) ! i) \<and>
            opt_incorrect (qi_options (questionsList (optionClick qn oi s) ! qn) ! i) \<and>
            opt_selected (qi_options (questionsList (optionClick qn oi s) ! qn) ! j) \<and>
            opt_incorrect (qi_options (questionsList (optionClick qn oi s) ! qn) ! j) \<longrightarrow> i = j)"
proof -
  let ?res = "qi_options (questionsList (optionClick qn oi s) ! qn)"
  let ?c = "answer q"
  note r = optionClick_rendered [OF assms(1,2,3)]
  from assms(4) obtain k where k: "k < length (options q)" "options q ! k = ?c"
    and uniq: "\<And>j. j < length (options q) \<Longrightarrow> options q ! j = ?c \<Longrightarrow> j = k"
    by blast
  have fi: "find_index (\<lambda>x. x = ?c) (options q) = Some k"
  proof (cases "find_index (\<lambda>x. x = ?c) (options q)")
    case None
    with k show ?thesis by (auto simp: find_index_None)
  next
    case (Some j)
    from find_index_Some [OF Some] uniq have "j = k" by blast
    with Some show ?thesis by simp
  qed
  have len: "length ?res = length (options q)"
    by (simp add: r(1) checkAnswer_length)
  have nth: "opt_value (?res ! j) = options q ! j \<and> opt_correct (?res ! j) = (j = k) \<and>
      opt_selected (?res ! j) = (j = oi) \<and> opt_incorrect (?res ! j) = (j = oi \<and> oi \<noteq> k)"
    if j: "j < length (options q)" for j
  proof (cases "options q ! oi = ?c")
    case True
    with uniq assms(3) have ok: "oi = k" by blast
    have eq: "?res = fst (checkAnswer (map render_option (options q)) oi ?c ?c (correctAnswers s))"
      using r(1) True by simp
    have f: "opt_value (?res ! j) = options q ! j" "opt_correct (?res ! j) = (j = oi)"
      "opt_selected (?res ! j) = (j = oi)" "opt_incorrect (?res ! j) = False"
      unfolding eq by (rule checkAnswer_fresh_right [OF assms(3) j])+
    show ?thesis
      unfolding f using ok by simp
  next
    case False
    with k have ok: "oi \<noteq> k" by auto
    have f: "opt_value (?res ! j) = options q ! j" "opt_selected (?res ! j) = (j = oi)"
      "opt_incorrect (?res ! j) = (j = oi)"
      "opt_correct (?res ! j) = (find_index (\<lambda>x. x = ?c) (options q) = Some j)"
      unfolding r(1) by (rule checkAnswer_fresh_wrong [OF assms(3) j False])+
    show ?thesis
      unfolding f fi using ok by auto
  qed
  have one: "\<exists>!j. j < length (options q) \<and> opt_correct (?res ! j)"
  proof (rule ex1I [of _ k])
    show "k < length (options q) \<and> opt_correct (?res ! k)" using nth [OF k(1)] k(1) by simp
  next
    fix j assume "j < length (options q) \<and> opt_correct (?res ! j)"
    then show "j = k" using nth [of j] by simp
  qed
  have iff: "\<forall>j<length (options q). opt_correct (?res ! j) \<longleftrightarrow> opt_value (?res ! j) = ?c"
  proof (intro allI impI)
    fix j assume j: "j < length (options q)"
    show "opt_correct (?res ! j) \<longleftrightarrow> opt_value (?res ! j) = ?c"
      using nth [OF j] k(2) uniq [OF j] by auto
  qed
  have most: "\<forall>i<length (options q). \<forall>j<length (options q).
      opt_selected (?res ! i) \<and> opt_incorrect (?res ! i) \<and>
      opt_selected (?res ! j) \<and> opt_incorrect (?res ! j) \<longrightarrow> i = j"
  proof (intro allI impI)
    fix i j assume i: "i < length (options q)" and j: "j < length (options q)"
      and h: "opt_selected (?res ! i) \<and> opt_incorrect (?res ! i) \<and>
      opt_selected (?res ! j) \<and> opt_incorrect (?res ! j)"
    from h nth [OF i] nth [OF j] show "i = j" by simp
  qed
  from len one iff most show ?thesis by (intro conjI)
qed

theorem answered_marks_one_correct_witness:
  "length (qi_options (questionsList
      (optionClick 0 0 (fst (renderQuestions [Question demo_question] initial_app))) ! 0)) = 4 \<and>
   (\<exists>!j. j < length (options demo_question) \<and>
      opt_correct (qi_options (questionsList
        (optionClick 0 0 (fst (renderQuestions [Question demo_question] initial_app))) ! 0) ! j))"
proof -
  let ?s = "fst (renderQuestions [Question demo_question] initial_app)"
  have h1: "0 < length (questionsList ?s)" by (simp add: rendered_demo)
  have h2: "questionsList ?s ! 0 = render_question 0 demo_question" by (simp add: rendered_demo)
  have h3: "0 < length (options demo_question)" by (simp add: demo_question_def)
  have len: "length (options demo_question) = 4" by (simp add: demo_question_def)
  from answered_marks_one_correct [OF h1 h2 h3 demo_unique] len show ?thesis by simp
qed

section \<open>Locking\<close>

text \<open>
  Claim C7. Locking is idempotent. A click on any option of a question that is already
  answered returns the state as it was: the counters, every marking and everything else.
  The first click on an option of an unanswered question locks the question, so any later
  click on one of its options changes nothing, and the question goes from unanswered to
  locked once.
\<close>

theorem locking_idempotent:
  assumes "qn < length (questionsList s)"
  shows "(qi_answered (questionsList s ! qn) \<longrightarrow> optionClick qn oi s = s) \<and>
         (\<not> qi_answered (questionsList s ! qn) \<and> oi < length (qi_options (questionsList s ! qn)) \<longrightarrow>
            qi_answered (questionsList (optionClick qn oi s) ! qn) \<and>
            optionClick qn oi' (optionClick qn oi s) = optionClick qn oi s)"
proof (intro conjI impI)
  assume "qi_answered (questionsList s ! qn)"
  with assms show "optionClick qn oi s = s" by (rule optionClick_answered)
next
  assume h: "\<not> qi_answered (questionsList s ! qn) \<and> oi < length (qi_options (questionsList s ! qn))"
  with assms have ql: "questionsList (optionClick qn oi s) =
     (questionsList s)[qn := (questionsList s ! qn)\<lparr>qi_options :=
         fst (checkAnswer (qi_options (questionsList s ! qn)) oi
               (opt_value (qi_options (questionsList s ! qn) ! oi))
               (qi_answer (questionsList s ! qn)) (correctAnswers s)),
         qi_answered := True\<rparr>]"
    by (simp add: optionClick_first)
  with assms show locked: "qi_answered (questionsList (optionClick qn oi s) ! qn)" by simp
  from ql assms have "qn < length (questionsList (optionClick qn oi s))" by simp
  then show "optionClick qn oi' (optionClick qn oi s) = optionClick qn oi s"
    using locked by (rule optionClick_answered)
qed

theorem locking_idempotent_witness:
  "qi_answered (questionsList (optionClick 0 0 (fst (renderQuestions [Question demo_question] initial_app))) ! 0) \<and>
   optionClick 0 2 (optionClick 0 0 (fst (renderQuestions [Question demo_question] initial_app))) =
     optionClick 0 0 (fst (renderQuestions [Question demo_question] initial_app))"
proof -
  let ?s = "fst (renderQuestions [Question demo_question] initial_app)"
  have h1: "0 < length (questionsList ?s)" by (simp add: rendered_demo)
  have h2: "\<not> qi_answered (questionsList ?s ! 0) \<and> 0 < length (qi_options (questionsList ?s ! 0))"
    by (simp add: rendered_demo render_question_def demo_question_def)
  from locking_idempotent [OF h1, of 0 2] h2 show ?thesis by blast
qed

section \<open>Answered and total\<close>

text \<open>
  Claim C8 says that \<open>answeredQuestions \<le> totalQuestions\<close> in every reachable state. With
  two calls outstanding (see C3) this fails: \<open>renderQuestions\<close> sets the counters for
  the list it is given and appends its questions to the list on the page, which only the
  start of \<open>generateQuiz\<close> empties. When the two calls settle one after the other, each with
  one question, the page holds two questions and \<open>totalQuestions\<close> is 1; after both are
  answered \<open>answeredQuestions\<close> is 2.
\<close>

theorem answered_exceeds_total_reachable:
  "run both_answered (initial_app, []) = Some (both_clicked, []) \<and>
   reachable (both_clicked, []) \<and>
   answeredQuestions both_clicked = 2 \<and> totalQuestions both_clicked = 1"
proof -
  let ?G = "optionClick 0 0 both_rendered"
  have o1: "0 < length (options demo_question)" by (simp add: demo_question_def)
  have o2: "0 < length (options stray_question)" by (simp add: stray_question_def)
  have F0: "0 < length (questionsList both_rendered)"
    and F1: "questionsList both_rendered ! 0 = render_question 0 demo_question"
    by (simp_all add: both_rendered_fields(1))
  have aG: "answeredQuestions ?G = 1"
    using optionClick_rendered(3) [OF F0 F1 o1] by (simp add: both_rendered_fields(3))
  have G0: "1 < length (questionsList ?G)"
    by (simp add: optionClick_frame(8) both_rendered_fields(1))
  have G1: "questionsList ?G ! 1 = render_question 0 stray_question"
    by (simp add: optionClick_other both_rendered_fields(1))
  have aH: "answeredQuestions both_clicked = 2"
    unfolding both_clicked_def using optionClick_rendered(3) [OF G0 G1 o2] by (simp add: aG)
  have tH: "totalQuestions both_clicked = 1"
    by (simp add: both_clicked_def optionClick_frame(7) both_rendered_fields(2))
  have "reachable (both_clicked, [])"
    unfolding reachable_def using both_answered_reached by blast
  with both_answered_reached aH tH show ?thesis by (intro conjI)
qed

text \<open>
  The overlap is the only way to this state. On the page as C3 describes it, where no
  call starts while another is outstanding, the answered questions and the unlocked
  questions on the page together never exceed \<open>totalQuestions\<close>, so
  \<open>answeredQuestions \<le> totalQuestions\<close> in every state that can be reached.
\<close>

lemma answered_within_total_alone:
  assumes "run_alone es (initial_app, []) = Some (s, calls)"
  shows "answeredQuestions s \<le> totalQuestions s \<and> length calls \<le> 1"
proof -
  from counted_run [OF counted_initial assms] show ?thesis
    by (simp add: counted_unfold)
qed

section \<open>The video after a failed generation\<close>

text \<open>
  Claim C9. When the generation fails (the call rejects, \<open>JSON.parse\<close> throws or
  \<open>renderQuestions\<close> throws), the catch branch of \<open>generateQuiz\<close> empties the video
  container, empties the question list, hides the results and shows the error message.
  So a failed retake removes the embedded player, while the identifier of the session is
  still set.
\<close>

theorem failure_removes_video:
  assumes "is_failure out"
  shows "videoContainer (generateQuiz_settle out s) = [] \<and>
         questionsList (generateQuiz_settle out s) = [] \<and>
         resultsContainer_display (generateQuiz_settle out s) = ''none'' \<and>
         \<not> errorMessage_hidden (generateQuiz_settle out s) \<and>
         (truthy (currentTranscript s) \<and> truthy (currentVideoId s) \<longrightarrow>
            videoContainer (retake out s) = [] \<and>
            questionsList (retake out s) = [] \<and>
            truthy (currentVideoId (retake out s)))"
proof -
  note f = is_failure_fields [OF assms]
  have a: "videoContainer (generateQuiz_settle out s) = []"
    "questionsList (generateQuiz_settle out s) = []"
    "resultsContainer_display (generateQuiz_settle out s) = ''none''"
    "\<not> errorMessage_hidden (generateQuiz_settle out s)"
    by (rule f)+
  have b: "videoContainer (retake out s) = [] \<and> questionsList (retake out s) = [] \<and>
           truthy (currentVideoId (retake out s))"
    if g: "truthy (currentTranscript s) \<and> truthy (currentVideoId s)"
  proof -
    from g have g1: "truthy (currentTranscript s)" and g2: "truthy (currentVideoId s)" by simp_all
    have "videoContainer (retake out s) = []"
      by (simp add: retake_guarded(1) [OF g1 g2] retake_settle_fields f)
    moreover have "questionsList (retake out s) = []"
      by (simp add: retake_guarded(1) [OF g1 g2] retake_settle_def f)
    moreover have "truthy (currentVideoId (retake out s))"
      using g2 by (simp add: retake_session)
    ultimately show ?thesis by simp
  qed
  from a b show ?thesis by blast
qed

theorem failure_removes_video_witness:
  "videoContainer (submit (Parses demo_quiz) filled_form) = [embed_video ''dQw4w9WgXcQ''] \<and>
   videoContainer (retake (Rejects (ErrorObject ''Failed to fetch''))
      (submit (Parses demo_quiz) filled_form)) = [] \<and>
   truthy (currentVideoId (retake (Rejects (ErrorObject ''Failed to fetch''))
      (submit (Parses demo_quiz) filled_form)))"
proof -
  let ?s = "submit (Parses demo_quiz) filled_form"
  have f: "is_failure (Rejects (ErrorObject ''Failed to fetch''))" by simp
  have h: "truthy (currentTranscript ?s) \<and> truthy (currentVideoId ?s)"
    by (simp add: after_demo_submit demo_transcript_def)
  from failure_removes_video [OF f, of ?s] h show ?thesis
    by (simp add: after_demo_submit)
qed

section \<open>An answer that is no option\<close>

text \<open>
  Claim C10. Take a question as it is rendered, whose answer equals none of its options,
  and click one of its options. The clicked option is marked selected and incorrect, no
  option is marked correct, \<open>correctAnswers\<close> keeps its value, \<open>answeredQuestions\<close> grows
  by one and the question is locked. Nothing is reported: the error message stays as it
  was.
\<close>

theorem stray_answer_scored_incorrect:
  assumes "qn < length (questionsList s)"
    and "questionsList s ! qn = render_question idx q"
    and "oi < length (options q)"
    and "answer q \<notin> set (options q)"
  shows "opt_selected (qi_options (questionsList (optionClick qn oi s) ! qn) ! oi) \<and>
         opt_incorrect (qi_options (questionsList (optionClick qn oi s) ! qn) ! oi) \<and>
         length (qi_options (questionsList (optionClick qn oi s) ! qn)) = length (options q) \<and>
         (\<forall>j<length (options q).
            \<not> opt_correct (qi_options (questionsList (optionClick qn oi s) ! qn) ! j)) \<and>
         correctAnswers (optionClick qn oi s) = correctAnswers s \<and>
         answeredQuestions (optionClick qn oi s) = answeredQuestions s + 1 \<and>
         qi_answered (questionsList (optionClick qn oi s) ! qn) \<and>
         errorMessage_hidden (optionClick qn oi s) = errorMessage_hidden s \<and>
         errorMessage_text (optionClick qn oi s) = errorMessage_text s"
proof -
  note r = optionClick_rendered [OF assms(1,2,3)]
  from assms(3,4) have ne: "options q ! oi \<noteq> answer q" by (metis nth_mem)
  have none: "find_index (\<lambda>x. x = answer q) (options q) = None"
    using assms(4) by (auto simp add: find_index_None)
  have sel: "opt_selected (qi_options (questionsList (optionClick qn oi s) ! qn) ! oi)"
    by (simp add: r(1) checkAnswer_fresh_wrong(2) [OF assms(3) assms(3) ne])
  have inc: "opt_incorrect (qi_options (questionsList (optionClick qn oi s) ! qn) ! oi)"
    by (simp add: r(1) checkAnswer_fresh_wrong(3) [OF assms(3) assms(3) ne])
  have len: "length (qi_options (questionsList (optionClick qn oi s) ! qn)) = length (options q)"
    by (simp add: r(1) checkAnswer_length)
  have cor: "\<forall>j<length (options q).
            \<not> opt_correct (qi_options (questionsList (optionClick qn oi s) ! qn) ! j)"
    by (simp add: r(1) checkAnswer_fresh_wrong(4) [OF assms(3) _ ne] none)
  have ca: "correctAnswers (optionClick qn oi s) = correctAnswers s"
    using assms(3) ne by (simp add: r(2) checkAnswer_wrong(2))
  from sel inc len cor ca r(3) r(4) optionClick_errorMessage [of qn oi s]
  show ?thesis by (intro conjI) simp_all
qed

theorem stray_answer_scored_incorrect_witness:
  "opt_incorrect (qi_options (questionsList
      (optionClick 0 2 (fst (renderQuestions [Question stray_question] initial_app))) ! 0) ! 2) \<and>
   correctAnswers (optionClick 0 2 (fst (renderQuestions [Question stray_question] initial_app))) = 0 \<and>
   answeredQuestions (optionClick 0 2 (fst (renderQuestions [Question stray_question] initial_app))) = 1"
proof -
  let ?s = "fst (renderQuestions [Question stray_question] initial_app)"
  have h1: "0 < length (questionsList ?s)" by (simp add: rendered_demo)
  have h2: "questionsList ?s ! 0 = render_question 0 stray_question" by (simp add: rendered_demo)
  have h3: "2 < length (options stray_question)" by (simp add: stray_question_def)
  have h4: "answer stray_question \<notin> set (options stray_question)"
    by (simp add: stray_question_def)
  have c: "correctAnswers ?s = 0" "answeredQuestions ?s = 0"
    by (simp_all add: renderQuestions_def)
  from stray_answer_scored_incorrect [OF h1 h2 h3 h4] c show ?thesis by simp
qed

end
